theory Spec2Isabelle
  imports Complex_Main "HOL-Library.AList"
begin


section \<open>Values, schemas and errors\<close>

text \<open>
  A JavaScript value as the transcoder sees it. Numbers and the time value a
  \<open>Date\<close> object wraps are type parameters (\<open>'n\<close> and \<open>'d\<close>): the code never
  computes on them itself, it hands them to the helper module. A plain object is
  the list of its entries in property order, an array the list of its elements.
\<close>

datatype ('n, 'd) jsval =
    Undefined
  | Null
  | Bool bool
  | Num 'n
  | Str string
  | Date 'd
  | Arr "('n, 'd) jsval list"
  | Obj "(string \<times> ('n, 'd) jsval) list"

type_synonym ('n, 'd) jsobject = "(string \<times> ('n, 'd) jsval) list"

text \<open>The declared types of a field: \<open>'boolean'\<close>, \<open>'number'\<close>, \<open>'date'\<close>,
  \<open>'point'\<close>, \<open>'string'\<close>, \<open>'text'\<close> and \<open>'string[]'\<close>.\<close>

datatype fieldType = TBoolean | TNumber | TDate | TPoint | TString | TText | TStringArray

text \<open>
  A parsed path expression. The path language is the JSONPath library's; the part
  of it modelled here is a root-relative sequence of direct children (\<open>.name\<close>,
  an own property of a plain object) and wildcards (\<open>[*]\<close>, all the children
  of an object or an array). The empty sequence is the path \<open>$\<close>, the root.
\<close>

datatype step = Child string | Wildcard

type_synonym jpath = "step list"

record fieldDef =
  type :: fieldType
  path :: "jpath option"

type_synonym schemaDef = "(string \<times> fieldDef) list"

text \<open>A property key inside its parent: a name in an object, an index in an array.
  A location is the list of keys from the root down to a value.\<close>

datatype propKey = Key string | Idx nat

type_synonym location = "propKey list"

text \<open>
  What the code throws. \<open>ExpectedButReceived\<close> is
  \<open>Error(`Expected a ... but received: ...`)\<close> of the encoder, tagged with the type
  the message names, \<open>ExpectedFromRedisJson\<close> the decoder's. The three
  \<open>Contains...\<close> errors are the thrown strings about a string array that holds
  null or undefined, with the container they print. \<open>FoundMany\<close> is
  \<open>Expected path to point to a single value but found many\<close>, with the path.
  \<open>TypeError\<close> is the JavaScript runtime's own (a property of null or undefined),
  \<open>RangeError\<close> its stack overflow. The value an error prints is a parameter
  of the type.
\<close>

datatype 'v error =
    ExpectedButReceived fieldType 'v
  | ExpectedFromRedisJson fieldType 'v
  | ContainsNull 'v
  | ContainsUndefined 'v
  | ContainsNullFromRedisJson 'v
  | FoundMany jpath
  | TypeError
  | RangeError

subsection \<open>The helper module\<close>

text \<open>
  The conversions of \<open>transformer-common\<close> on dates and points, and the
  runtime's \<open>toString\<close> on numbers and dates, are taken as parameters.
\<close>

record ('n, 'd) common =
  convertDateToEpoch :: "'d \<Rightarrow> 'n"
  convertEpochToDate :: "'n \<Rightarrow> 'd"
  convertIsoDateToEpoch :: "string \<Rightarrow> 'n"
  isPoint :: "('n, 'd) jsval \<Rightarrow> bool"
  convertPointToString :: "('n, 'd) jsval \<Rightarrow> string"
  isPointString :: "('n, 'd) jsval \<Rightarrow> bool"
  convertStringToPoint :: "('n, 'd) jsval \<Rightarrow> ('n, 'd) jsval"
  numberToString :: "'n \<Rightarrow> string"
  dateToString :: "'d \<Rightarrow> string"

text \<open>Modelled from the spec: the type guards of \<open>transformer-common\<close>, which
  is not among the sources. Each one tests the shape its name says; \<open>isObject\<close>
  holds of plain objects only (not of null, arrays or dates), as the cleanup pass
  of the encoder recurses into nested objects and leaves arrays and scalars alone.\<close>

fun isNull :: "('n, 'd) jsval \<Rightarrow> bool" where
  "isNull Null = True"
| "isNull _ = False"

fun isUndefined :: "('n, 'd) jsval \<Rightarrow> bool" where
  "isUndefined Undefined = True"
| "isUndefined _ = False"

definition isDefined :: "('n, 'd) jsval \<Rightarrow> bool" where
  "isDefined value = (\<not> isUndefined value)"

fun isBoolean :: "('n, 'd) jsval \<Rightarrow> bool" where
  "isBoolean (Bool _) = True"
| "isBoolean _ = False"

fun isNumber :: "('n, 'd) jsval \<Rightarrow> bool" where
  "isNumber (Num _) = True"
| "isNumber _ = False"

fun isString :: "('n, 'd) jsval \<Rightarrow> bool" where
  "isString (Str _) = True"
| "isString _ = False"

fun isDate :: "('n, 'd) jsval \<Rightarrow> bool" where
  "isDate (Date _) = True"
| "isDate _ = False"

fun isArray :: "('n, 'd) jsval \<Rightarrow> bool" where
  "isArray (Arr _) = True"
| "isArray _ = False"

fun isObject :: "('n, 'd) jsval \<Rightarrow> bool" where
  "isObject (Obj _) = True"
| "isObject _ = False"

subsection \<open>\<open>toString\<close>\<close>

text \<open>\<open>Array.prototype.join\<close> with a comma.\<close>

fun joinComma :: "string list \<Rightarrow> string" where
  "joinComma [] = []"
| "joinComma [s] = s"
| "joinComma (s # t # ss) = s @ '','' @ joinComma (t # ss)"

text \<open>
  \<open>value.toString()\<close>: a \<open>TypeError\<close> on null and undefined; an array joins
  the strings of its elements, where a null or undefined element gives the empty
  string; a plain object gives \<open>[object Object]\<close>.
\<close>

fun toString :: "('n, 'd) common \<Rightarrow> ('n, 'd) jsval \<Rightarrow> ('n, 'd) jsval error + string" where
  "toString c Undefined = Inl TypeError"
| "toString c Null = Inl TypeError"
| "toString c (Bool b) = Inr (if b then ''true'' else ''false'')"
| "toString c (Num n) = Inr (numberToString c n)"
| "toString c (Str s) = Inr s"
| "toString c (Date d) = Inr (dateToString c d)"
| "toString c (Arr xs) =
     Inr (joinComma (map (\<lambda>x. case toString c x of Inl _ \<Rightarrow> [] | Inr s \<Rightarrow> s) xs))"
| "toString c (Obj fs) = Inr ''[object Object]''"

section \<open>Converting one value\<close>

fun convertKnownValueToString ::
  "('n, 'd) common \<Rightarrow> ('n, 'd) jsval \<Rightarrow> ('n, 'd) jsval error + ('n, 'd) jsval" where
  "convertKnownValueToString c value =
     (if isBoolean value then map_sum id Str (toString c value)
      else if isNumber value then map_sum id Str (toString c value)
      else if isString value then Inr value
      else Inl (ExpectedButReceived TString value))"

text \<open>\<open>array.map\<close> with a callback that may throw: the first throw ends it.\<close>

fun mapE :: "('a \<Rightarrow> 'e + 'b) \<Rightarrow> 'a list \<Rightarrow> 'e + 'b list" where
  "mapE f [] = Inr []"
| "mapE f (x # xs) =
     (case f x of
        Inl e \<Rightarrow> Inl e
      | Inr y \<Rightarrow> (case mapE f xs of Inl e \<Rightarrow> Inl e | Inr ys \<Rightarrow> Inr (y # ys)))"

definition convertArrayToStringArray ::
  "('n, 'd) common \<Rightarrow> ('n, 'd) jsval list \<Rightarrow> ('n, 'd) jsval error + ('n, 'd) jsval list" where
  "convertArrayToStringArray c array =
     mapE (\<lambda>value.
        if isNull value then Inl (ContainsNull (Arr array))
        else if isUndefined value then Inl (ContainsUndefined (Arr array))
        else map_sum id Str (toString c value)) array"

definition convertFromJsonArrayToStringArray ::
  "('n, 'd) common \<Rightarrow> ('n, 'd) jsval list \<Rightarrow> ('n, 'd) jsval error + ('n, 'd) jsval list" where
  "convertFromJsonArrayToStringArray c array =
     mapE (\<lambda>value.
        if isNull value then Inl (ContainsNullFromRedisJson (Arr array))
        else map_sum id Str (toString c value)) array"

fun convertKnownValueToJson ::
  "('n, 'd) common \<Rightarrow> fieldType \<Rightarrow> ('n, 'd) jsval \<Rightarrow> ('n, 'd) jsval error + ('n, 'd) jsval" where
  "convertKnownValueToJson c fieldType value =
     (if isNull value then Inr value
      else case fieldType of
        TBoolean \<Rightarrow>
          if isBoolean value then Inr value else Inl (ExpectedButReceived TBoolean value)
      | TNumber \<Rightarrow>
          if isNumber value then Inr value else Inl (ExpectedButReceived TNumber value)
      | TDate \<Rightarrow>
          (case value of
             Date d \<Rightarrow> Inr (Num (convertDateToEpoch c d))
           | Str s \<Rightarrow> Inr (Num (convertIsoDateToEpoch c s))
           | Num n \<Rightarrow> Inr value
           | _ \<Rightarrow> Inl (ExpectedButReceived TDate value))
      | TPoint \<Rightarrow>
          if isPoint c value then Inr (Str (convertPointToString c value))
          else Inl (ExpectedButReceived TPoint value)
      | TString \<Rightarrow> convertKnownValueToString c value
      | TText \<Rightarrow> convertKnownValueToString c value
      | TStringArray \<Rightarrow>
          (case value of
             Arr array \<Rightarrow> map_sum id Arr (convertArrayToStringArray c array)
           | _ \<Rightarrow> Inl (ExpectedButReceived TStringArray value)))"

fun convertUnknownValueToJson :: "('n, 'd) common \<Rightarrow> ('n, 'd) jsval \<Rightarrow> ('n, 'd) jsval" where
  "convertUnknownValueToJson c (Date d) = Num (convertDateToEpoch c d)"
| "convertUnknownValueToJson c value = value"

fun convertKnownValueFromJson ::
  "('n, 'd) common \<Rightarrow> fieldDef \<Rightarrow> ('n, 'd) jsval \<Rightarrow> ('n, 'd) jsval error + ('n, 'd) jsval" where
  "convertKnownValueFromJson c fieldDef value =
     (if isNull value then Inr value
      else case type fieldDef of
        TBoolean \<Rightarrow>
          if isBoolean value then Inr value else Inl (ExpectedFromRedisJson TBoolean value)
      | TNumber \<Rightarrow>
          if isNumber value then Inr value else Inl (ExpectedFromRedisJson TNumber value)
      | TDate \<Rightarrow>
          (case value of
             Num n \<Rightarrow> Inr (Date (convertEpochToDate c n))
           | _ \<Rightarrow> Inl (ExpectedFromRedisJson TDate value))
      | TPoint \<Rightarrow>
          if isPointString c value then Inr (convertStringToPoint c value)
          else Inl (ExpectedFromRedisJson TPoint value)
      | TString \<Rightarrow>
          if isString value then Inr value
          else if isBoolean value then map_sum id Str (toString c value)
          else if isNumber value then map_sum id Str (toString c value)
          else Inl (ExpectedFromRedisJson TString value)
      | TText \<Rightarrow>
          if isString value then Inr value
          else if isBoolean value then map_sum id Str (toString c value)
          else if isNumber value then map_sum id Str (toString c value)
          else Inl (ExpectedFromRedisJson TString value)
      | TStringArray \<Rightarrow>
          (case value of
             Arr array \<Rightarrow> map_sum id Arr (convertFromJsonArrayToStringArray c array)
           | _ \<Rightarrow> Inl (ExpectedFromRedisJson TStringArray value)))"

section \<open>Path resolution\<close>

text \<open>
  \<open>JSONPath({ resultType: 'all', path, json })\<close>: the matches of a path in a
  document, in document order, each with its value and its location. The
  \<open>parent\<close> of a match is the value at the location without its last key,
  \<open>parentProperty\<close> is that last key; the match of the empty path is the root,
  whose parent is null.
\<close>

fun trace :: "jpath \<Rightarrow> ('n, 'd) jsval \<Rightarrow> location \<Rightarrow> (('n, 'd) jsval \<times> location) list" where
  "trace [] val loc = [(val, loc)]"
| "trace (Child name # expr) val loc =
     (case val of
        Obj fs \<Rightarrow>
          (case map_of fs name of
             Some v \<Rightarrow> trace expr v (loc @ [Key name])
           | None \<Rightarrow> [])
      | _ \<Rightarrow> [])"
| "trace (Wildcard # expr) val loc =
     (case val of
        Obj fs \<Rightarrow> concat (map (\<lambda>(k, v). trace expr v (loc @ [Key k])) fs)
      | Arr xs \<Rightarrow> concat (map (\<lambda>(i, v). trace expr v (loc @ [Idx i])) (enumerate 0 xs))
      | _ \<Rightarrow> [])"

definition JSONPath :: "jpath \<Rightarrow> ('n, 'd) jsobject \<Rightarrow> (('n, 'd) jsval \<times> location) list" where
  "JSONPath p json = trace p (Obj json) []"

text \<open>Reading the value at a location; a property that is not there reads as
  undefined.\<close>

fun get_at :: "location \<Rightarrow> ('n, 'd) jsval \<Rightarrow> ('n, 'd) jsval" where
  "get_at [] val = val"
| "get_at (Key k # loc) val =
     (case val of
        Obj fs \<Rightarrow> (case map_of fs k of Some v \<Rightarrow> get_at loc v | None \<Rightarrow> Undefined)
      | _ \<Rightarrow> Undefined)"
| "get_at (Idx i # loc) val =
     (case val of
        Arr xs \<Rightarrow> (if i < length xs then get_at loc (xs ! i) else Undefined)
      | _ \<Rightarrow> Undefined)"

text \<open>Writing a value at a location of the document. A location whose parent is
  no longer in the document writes nothing there.\<close>

fun set_at :: "location \<Rightarrow> ('n, 'd) jsval \<Rightarrow> ('n, 'd) jsval \<Rightarrow> ('n, 'd) jsval" where
  "set_at [] new val = new"
| "set_at (Key k # loc) new val =
     (case val of
        Obj fs \<Rightarrow>
          (case map_of fs k of
             Some v \<Rightarrow> Obj (AList.update k (set_at loc new v) fs)
           | None \<Rightarrow> (if loc = [] then Obj (AList.update k new fs) else val))
      | _ \<Rightarrow> val)"
| "set_at (Idx i # loc) new val =
     (case val of
        Arr xs \<Rightarrow> (if i < length xs then Arr (xs[i := set_at loc new (xs ! i)]) else val)
      | _ \<Rightarrow> val)"

text \<open>The \<open>parent\<close> of a match, as the document holds it now.\<close>

definition parent :: "location \<Rightarrow> ('n, 'd) jsobject \<Rightarrow> ('n, 'd) jsval" where
  "parent loc json = (if loc = [] then Null else get_at (butlast loc) (Obj json))"

text \<open>\<open>parent[parentProperty] = new\<close>: a \<open>TypeError\<close> when the parent is null.\<close>

definition assign ::
  "location \<Rightarrow> ('n, 'd) jsval \<Rightarrow> ('n, 'd) jsobject \<Rightarrow> ('n, 'd) jsval error + ('n, 'd) jsobject" where
  "assign loc new json =
     (if loc = [] then Inl TypeError
      else case set_at loc new (Obj json) of Obj fs \<Rightarrow> Inr fs | _ \<Rightarrow> Inr json)"

text \<open>\<open>forEach\<close> with a callback that changes the document and may throw.\<close>

fun forEachE :: "('a \<Rightarrow> 's \<Rightarrow> 'e + 's) \<Rightarrow> 'a list \<Rightarrow> 's \<Rightarrow> 'e + 's" where
  "forEachE f [] s = Inr s"
| "forEachE f (x # xs) s = (case f x s of Inl e \<Rightarrow> Inl e | Inr s' \<Rightarrow> forEachE f xs s')"

section \<open>Encoding\<close>

definition convertKnownResultToJson ::
  "('n, 'd) common \<Rightarrow> fieldType \<Rightarrow> ('n, 'd) jsval \<times> location \<Rightarrow> ('n, 'd) jsobject
     \<Rightarrow> ('n, 'd) jsval error + ('n, 'd) jsobject" where
  "convertKnownResultToJson c fieldType result json =
     (case result of (value, loc) \<Rightarrow>
        if isDefined value then
          (case convertKnownValueToJson c fieldType value of
             Inl e \<Rightarrow> Inl e
           | Inr new \<Rightarrow> assign loc new json)
        else Inr json)"

definition convertKnownResultsToJson ::
  "('n, 'd) common \<Rightarrow> fieldType \<Rightarrow> jpath \<Rightarrow> (('n, 'd) jsval \<times> location) list
     \<Rightarrow> ('n, 'd) jsobject \<Rightarrow> ('n, 'd) jsval error + ('n, 'd) jsobject" where
  "convertKnownResultsToJson c fieldType p results json =
     (if fieldType = TStringArray then
        forEachE (\<lambda>(value, loc) json.
          if isNull value then Inl (ContainsNull (parent loc json))
          else if isUndefined value \<and> isArray (parent loc json)
            then Inl (ContainsUndefined (parent loc json))
          else if isDefined value then
            (case convertKnownValueToString c value of
               Inl e \<Rightarrow> Inl e
             | Inr new \<Rightarrow> assign loc new json)
          else Inr json) results json
      else Inl (FoundMany p))"

text \<open>The path of a field: its own, or \<open>$.fieldName\<close>.\<close>

definition pathOf :: "string \<Rightarrow> fieldDef \<Rightarrow> jpath" where
  "pathOf fieldName fieldDef =
     (case path fieldDef of Some p \<Rightarrow> p | None \<Rightarrow> [Child fieldName])"

definition convertToRedisJsonKnown ::
  "('n, 'd) common \<Rightarrow> schemaDef \<Rightarrow> ('n, 'd) jsobject \<Rightarrow> ('n, 'd) jsval error + ('n, 'd) jsobject" where
  "convertToRedisJsonKnown c schemaDef json =
     forEachE (\<lambda>(fieldName, fieldDef) json.
       let results = JSONPath (pathOf fieldName fieldDef) json in
       if length results = 1 then convertKnownResultToJson c (type fieldDef) (results ! 0) json
       else if length results > 1 then
         convertKnownResultsToJson c (type fieldDef) (pathOf fieldName fieldDef) results json
       else Inr json) schemaDef json"

text \<open>The entries of a plain object.\<close>

fun entries :: "('n, 'd) jsval \<Rightarrow> ('n, 'd) jsobject" where
  "entries (Obj fs) = fs"
| "entries _ = []"

function convertToRedisJsonUnknown :: "('n, 'd) common \<Rightarrow> ('n, 'd) jsobject \<Rightarrow> ('n, 'd) jsobject" where
  "convertToRedisJsonUnknown c json =
     fold (\<lambda>(key, value) json.
        if isUndefined value then AList.delete key json
        else if isObject value then
          AList.update key (Obj (convertToRedisJsonUnknown c (entries value))) json
        else AList.update key (convertUnknownValueToJson c value) json) json json"
  by pat_completeness auto
termination
proof (relation "measure (\<lambda>(c, json). size_list (\<lambda>p. size (snd p)) json)", goal_cases)
  case 1
  show ?case by simp
next
  case (2 c json x key val)
  from \<open>isObject val\<close> obtain fs where fs: "val = Obj fs"
    by (cases val) simp_all
  have "size_list (\<lambda>p. size (snd p)) fs \<le> size_list (size_prod (\<lambda>_. 0) size) fs"
    by (rule size_list_pointwise) auto
  then have "size_list (\<lambda>p. size (snd p)) fs < size val"
    using fs by simp
  moreover have "size val \<le> size_list (\<lambda>p. size (snd p)) json"
    using \<open>x \<in> set json\<close> \<open>(key, val) = x\<close> by (induction json) auto
  ultimately show ?case using fs by simp
qed

text \<open>\<open>clone\<close> copies the document deeply; on values that is the identity.\<close>

definition clone :: "('n, 'd) jsobject \<Rightarrow> ('n, 'd) jsobject" where
  "clone data = data"

definition toRedisJson ::
  "('n, 'd) common \<Rightarrow> schemaDef \<Rightarrow> ('n, 'd) jsobject \<Rightarrow> ('n, 'd) jsval error + ('n, 'd) jsobject" where
  "toRedisJson c schema data =
     (case convertToRedisJsonKnown c schema (clone data) of
        Inl e \<Rightarrow> Inl e
      | Inr json \<Rightarrow> Inr (convertToRedisJsonUnknown c json))"

section \<open>Decoding\<close>

text \<open>The loop of \<open>convertFromRedisJsonKnown\<close> over the matches of a string
  array; the source writes it in place, without a name.\<close>

definition convertKnownResultsFromJson ::
  "('n, 'd) common \<Rightarrow> (('n, 'd) jsval \<times> location) list \<Rightarrow> ('n, 'd) jsobject
     \<Rightarrow> ('n, 'd) jsval error + ('n, 'd) jsobject" where
  "convertKnownResultsFromJson c results data =
     forEachE (\<lambda>(value, loc) data.
       if isNull value then Inl (ContainsNullFromRedisJson (parent loc data))
       else (case convertKnownValueToString c value of
               Inl e \<Rightarrow> Inl e
             | Inr new \<Rightarrow> assign loc new data)) results data"

definition convertFromRedisJsonKnown ::
  "('n, 'd) common \<Rightarrow> schemaDef \<Rightarrow> ('n, 'd) jsobject \<Rightarrow> ('n, 'd) jsval error + ('n, 'd) jsobject" where
  "convertFromRedisJsonKnown c schemaDef data =
     forEachE (\<lambda>(fieldName, fieldDef) data.
       let results = JSONPath (pathOf fieldName fieldDef) data in
       if length results = 1 then
         (case results ! 0 of (value, loc) \<Rightarrow>
            (case convertKnownValueFromJson c fieldDef value of
               Inl e \<Rightarrow> Inl e
             | Inr new \<Rightarrow> assign loc new data))
       else if length results > 1 then
         (if type fieldDef = TStringArray then convertKnownResultsFromJson c results data
          else Inr data)
       else Inr data) schemaDef data"

definition fromRedisJson ::
  "('n, 'd) common \<Rightarrow> schemaDef \<Rightarrow> ('n, 'd) jsobject \<Rightarrow> ('n, 'd) jsval error + ('n, 'd) jsobject" where
  "fromRedisJson c schema json = convertFromRedisJsonKnown c schema (clone json)"

section \<open>The transcoder over a store of objects\<close>

text \<open>
  The same code once more, for the claim about mutation: objects, arrays and
  dates live in a store and values refer to them by address, so that a write
  through one reference shows through every other. The store is the list of
  its objects; a new object goes to the end.
\<close>

type_synonym addr = nat

datatype ('n, 'd) hval =
    HUndefined
  | HNull
  | HBool bool
  | HNum 'n
  | HStr string
  | HRef addr

datatype ('n, 'd) hobj =
    HObject "(string \<times> ('n, 'd) hval) list"
  | HArray "('n, 'd) hval list"
  | HDate 'd

type_synonym ('n, 'd) heap = "('n, 'd) hobj list"

definition deref :: "('n, 'd) heap \<Rightarrow> addr \<Rightarrow> ('n, 'd) hobj option" where
  "deref h a = (if a < length h then Some (h ! a) else None)"

text \<open>The helper module over the store. Reading a point and printing an object
  look into the store; the point object that \<open>convertStringToPoint\<close> makes is
  given by its entries.\<close>

record ('n, 'd) commonH =
  convertDateToEpochH :: "'d \<Rightarrow> 'n"
  convertEpochToDateH :: "'n \<Rightarrow> 'd"
  convertIsoDateToEpochH :: "string \<Rightarrow> 'n"
  isPointH :: "('n, 'd) heap \<Rightarrow> ('n, 'd) hval \<Rightarrow> bool"
  convertPointToStringH :: "('n, 'd) heap \<Rightarrow> ('n, 'd) hval \<Rightarrow> string"
  isPointStringH :: "('n, 'd) hval \<Rightarrow> bool"
  convertStringToPointH :: "('n, 'd) hval \<Rightarrow> (string \<times> 'n) list"
  numberToStringH :: "'n \<Rightarrow> string"
  objectToStringH :: "('n, 'd) heap \<Rightarrow> addr \<Rightarrow> string"

fun isNullH :: "('n, 'd) hval \<Rightarrow> bool" where
  "isNullH HNull = True"
| "isNullH _ = False"

fun isUndefinedH :: "('n, 'd) hval \<Rightarrow> bool" where
  "isUndefinedH HUndefined = True"
| "isUndefinedH _ = False"

definition isDefinedH :: "('n, 'd) hval \<Rightarrow> bool" where
  "isDefinedH value = (\<not> isUndefinedH value)"

fun isBooleanH :: "('n, 'd) hval \<Rightarrow> bool" where
  "isBooleanH (HBool _) = True"
| "isBooleanH _ = False"

fun isNumberH :: "('n, 'd) hval \<Rightarrow> bool" where
  "isNumberH (HNum _) = True"
| "isNumberH _ = False"

fun isStringH :: "('n, 'd) hval \<Rightarrow> bool" where
  "isStringH (HStr _) = True"
| "isStringH _ = False"

text \<open>The object a value refers to.\<close>

fun target :: "('n, 'd) heap \<Rightarrow> ('n, 'd) hval \<Rightarrow> ('n, 'd) hobj option" where
  "target h (HRef a) = deref h a"
| "target h _ = None"

definition isDateH :: "('n, 'd) heap \<Rightarrow> ('n, 'd) hval \<Rightarrow> bool" where
  "isDateH h value = (case target h value of Some (HDate d) \<Rightarrow> True | _ \<Rightarrow> False)"

definition isArrayH :: "('n, 'd) heap \<Rightarrow> ('n, 'd) hval \<Rightarrow> bool" where
  "isArrayH h value = (case target h value of Some (HArray xs) \<Rightarrow> True | _ \<Rightarrow> False)"


subsection \<open>\<open>clone\<close>\<close>


subsection \<open>Path resolution in the store\<close>

text \<open>A match is its value and, unless it is the root, the address of its parent
  with the property in it.\<close>

type_synonym ('n, 'd) resultH = "('n, 'd) hval \<times> (addr \<times> propKey) option"

fun traceH :: "jpath \<Rightarrow> ('n, 'd) heap \<Rightarrow> ('n, 'd) hval \<Rightarrow> (addr \<times> propKey) option
    \<Rightarrow> ('n, 'd) resultH list" where
  "traceH [] h val par = [(val, par)]"
| "traceH (Child name # expr) h val par =
     (case val of
        HRef a \<Rightarrow>
          (case deref h a of
             Some (HObject fs) \<Rightarrow>
               (case map_of fs name of
                  Some v \<Rightarrow> traceH expr h v (Some (a, Key name))
                | None \<Rightarrow> [])
           | _ \<Rightarrow> [])
      | _ \<Rightarrow> [])"
| "traceH (Wildcard # expr) h val par =
     (case val of
        HRef a \<Rightarrow>
          (case deref h a of
             Some (HObject fs) \<Rightarrow> concat (map (\<lambda>(k, v). traceH expr h v (Some (a, Key k))) fs)
           | Some (HArray xs) \<Rightarrow>
               concat (map (\<lambda>(i, v). traceH expr h v (Some (a, Idx i))) (enumerate 0 xs))
           | _ \<Rightarrow> [])
      | _ \<Rightarrow> [])"

definition JSONPathH :: "jpath \<Rightarrow> ('n, 'd) heap \<Rightarrow> addr \<Rightarrow> ('n, 'd) resultH list" where
  "JSONPathH p h json = traceH p h (HRef json) None"

text \<open>\<open>obj[property] = new\<close> and \<open>delete obj[key]\<close> on the object at an address.\<close>

fun setProp :: "('n, 'd) heap \<Rightarrow> addr \<Rightarrow> propKey \<Rightarrow> ('n, 'd) hval \<Rightarrow> ('n, 'd) heap" where
  "setProp h a (Key k) new =
     (case deref h a of Some (HObject fs) \<Rightarrow> h[a := HObject (AList.update k new fs)] | _ \<Rightarrow> h)"
| "setProp h a (Idx i) new =
     (case deref h a of
        Some (HArray xs) \<Rightarrow> (if i < length xs then h[a := HArray (xs[i := new])] else h)
      | _ \<Rightarrow> h)"


text \<open>The \<open>parent\<close> of a match as a value: null for the root.\<close>

fun parentH :: "(addr \<times> propKey) option \<Rightarrow> ('n, 'd) hval" where
  "parentH None = HNull"
| "parentH (Some (a, q)) = HRef a"

text \<open>\<open>parent[parentProperty] = new\<close>: the store after it, and the \<open>TypeError\<close>
  when the parent is null.\<close>

fun assignH :: "(addr \<times> propKey) option \<Rightarrow> ('n, 'd) hval \<Rightarrow> ('n, 'd) heap
    \<Rightarrow> ('n, 'd) heap \<times> ('n, 'd) hval error option" where
  "assignH None new h = (h, Some TypeError)"
| "assignH (Some (a, q)) new h = (setProp h a q new, None)"

text \<open>\<open>forEach\<close> with a callback that changes the store and may throw: the store
  as the throw left it, with the error.\<close>

fun forEachH :: "('a \<Rightarrow> 's \<Rightarrow> 's \<times> 'e option) \<Rightarrow> 'a list \<Rightarrow> 's \<Rightarrow> 's \<times> 'e option" where
  "forEachH f [] s = (s, None)"
| "forEachH f (x # xs) s =
     (case f x s of (s', Some e) \<Rightarrow> (s', Some e) | (s', None) \<Rightarrow> forEachH f xs s')"

subsection \<open>Converting one value in the store\<close>

fun toStringH :: "('n, 'd) commonH \<Rightarrow> ('n, 'd) heap \<Rightarrow> ('n, 'd) hval
    \<Rightarrow> ('n, 'd) hval error + string" where
  "toStringH c h HUndefined = Inl TypeError"
| "toStringH c h HNull = Inl TypeError"
| "toStringH c h (HBool b) = Inr (if b then ''true'' else ''false'')"
| "toStringH c h (HNum n) = Inr (numberToStringH c n)"
| "toStringH c h (HStr s) = Inr s"
| "toStringH c h (HRef a) = Inr (objectToStringH c h a)"

definition convertKnownValueToStringH ::
  "('n, 'd) commonH \<Rightarrow> ('n, 'd) heap \<Rightarrow> ('n, 'd) hval \<Rightarrow> ('n, 'd) hval error + ('n, 'd) hval" where
  "convertKnownValueToStringH c h value =
     (if isBooleanH value then map_sum id HStr (toStringH c h value)
      else if isNumberH value then map_sum id HStr (toStringH c h value)
      else if isStringH value then Inr value
      else Inl (ExpectedButReceived TString value))"

text \<open>The two array conversions read the array and give the elements of the new
  array, which \<open>map\<close> makes.\<close>

definition convertArrayToStringArrayH ::
  "('n, 'd) commonH \<Rightarrow> ('n, 'd) heap \<Rightarrow> ('n, 'd) hval \<Rightarrow> ('n, 'd) hval list
     \<Rightarrow> ('n, 'd) hval error + ('n, 'd) hval list" where
  "convertArrayToStringArrayH c h array elements =
     mapE (\<lambda>value.
        if isNullH value then Inl (ContainsNull array)
        else if isUndefinedH value then Inl (ContainsUndefined array)
        else map_sum id HStr (toStringH c h value)) elements"


text \<open>A conversion gives the new value and the store, in which it may have made
  a new object; an error leaves the store as it was.\<close>

definition convertKnownValueToJsonH ::
  "('n, 'd) commonH \<Rightarrow> fieldType \<Rightarrow> ('n, 'd) hval \<Rightarrow> ('n, 'd) heap
     \<Rightarrow> ('n, 'd) hval error + ('n, 'd) heap \<times> ('n, 'd) hval" where
  "convertKnownValueToJsonH c fieldType value h =
     (if isNullH value then Inr (h, value)
      else case fieldType of
        TBoolean \<Rightarrow>
          if isBooleanH value then Inr (h, value) else Inl (ExpectedButReceived TBoolean value)
      | TNumber \<Rightarrow>
          if isNumberH value then Inr (h, value) else Inl (ExpectedButReceived TNumber value)
      | TDate \<Rightarrow>
          (case target h value of
             Some (HDate d) \<Rightarrow> Inr (h, HNum (convertDateToEpochH c d))
           | _ \<Rightarrow>
               (case value of
                  HStr s \<Rightarrow> Inr (h, HNum (convertIsoDateToEpochH c s))
                | HNum n \<Rightarrow> Inr (h, value)
                | _ \<Rightarrow> Inl (ExpectedButReceived TDate value)))
      | TPoint \<Rightarrow>
          if isPointH c h value then Inr (h, HStr (convertPointToStringH c h value))
          else Inl (ExpectedButReceived TPoint value)
      | TString \<Rightarrow> map_sum id (Pair h) (convertKnownValueToStringH c h value)
      | TText \<Rightarrow> map_sum id (Pair h) (convertKnownValueToStringH c h value)
      | TStringArray \<Rightarrow>
          (case target h value of
             Some (HArray xs) \<Rightarrow>
               (case convertArrayToStringArrayH c h value xs of
                  Inl e \<Rightarrow> Inl e
                | Inr strings \<Rightarrow> Inr (h @ [HArray strings], HRef (length h)))
           | _ \<Rightarrow> Inl (ExpectedButReceived TStringArray value)))"



subsection \<open>Encoding and decoding in the store\<close>

definition convertKnownResultToJsonH ::
  "('n, 'd) commonH \<Rightarrow> fieldType \<Rightarrow> ('n, 'd) resultH \<Rightarrow> ('n, 'd) heap
     \<Rightarrow> ('n, 'd) heap \<times> ('n, 'd) hval error option" where
  "convertKnownResultToJsonH c fieldType result h =
     (case result of (value, par) \<Rightarrow>
        if isDefinedH value then
          (case convertKnownValueToJsonH c fieldType value h of
             Inl e \<Rightarrow> (h, Some e)
           | Inr (h', new) \<Rightarrow> assignH par new h')
        else (h, None))"

definition convertKnownResultsToJsonH ::
  "('n, 'd) commonH \<Rightarrow> fieldType \<Rightarrow> jpath \<Rightarrow> ('n, 'd) resultH list \<Rightarrow> ('n, 'd) heap
     \<Rightarrow> ('n, 'd) heap \<times> ('n, 'd) hval error option" where
  "convertKnownResultsToJsonH c fieldType p results h =
     (if fieldType = TStringArray then
        forEachH (\<lambda>(value, par) h.
          if isNullH value then (h, Some (ContainsNull (parentH par)))
          else if isUndefinedH value \<and> isArrayH h (parentH par)
            then (h, Some (ContainsUndefined (parentH par)))
          else if isDefinedH value then
            (case convertKnownValueToStringH c h value of
               Inl e \<Rightarrow> (h, Some e)
             | Inr new \<Rightarrow> assignH par new h)
          else (h, None)) results h
      else (h, Some (FoundMany p)))"

definition convertToRedisJsonKnownH ::
  "('n, 'd) commonH \<Rightarrow> schemaDef \<Rightarrow> addr \<Rightarrow> ('n, 'd) heap
     \<Rightarrow> ('n, 'd) heap \<times> ('n, 'd) hval error option" where
  "convertToRedisJsonKnownH c schemaDef json h =
     forEachH (\<lambda>(fieldName, fieldDef) h.
       let results = JSONPathH (pathOf fieldName fieldDef) h json in
       if length results = 1 then convertKnownResultToJsonH c (type fieldDef) (results ! 0) h
       else if length results > 1 then
         convertKnownResultsToJsonH c (type fieldDef) (pathOf fieldName fieldDef) results h
       else (h, None)) schemaDef h"






subsection \<open>What belongs to a call\<close>





section \<open>The store gateway\<close>

text \<open>An error object of the client library, with the \<open>name\<close> the gateway
  tests.\<close>

record jsError =
  name :: string
  message :: string

text \<open>What \<open>hsetall\<close> throws: its own \<open>RedisError\<close> with a message, or the
  error it caught, as it was.\<close>

datatype shimError = RedisError string | Rethrown jsError

datatype command =
    WATCH string
  | MULTI
  | UNLINK string
  | HSET string "(string \<times> string) list"
  | EXEC

text \<open>The command queue that \<open>multi()\<close> starts and \<open>unlink\<close> and \<open>hSet\<close>
  extend.\<close>

definition multi :: "command list" where
  "multi = []"

definition unlink :: "command list \<Rightarrow> string \<Rightarrow> command list" where
  "unlink queue key = queue @ [UNLINK key]"

definition hSet :: "command list \<Rightarrow> string \<Rightarrow> (string \<times> string) list \<Rightarrow> command list" where
  "hSet queue key data = queue @ [HSET key data]"

text \<open>
  The client library is a parameter: a session offers \<open>watch\<close> and \<open>exec\<close> (of
  a queue), each of which changes the state \<open>'s\<close> of the connection and the
  server or fails with an error; \<open>executeIsolated\<close> runs a function on a
  session of its own.
\<close>

record 's session =
  watch :: "string \<Rightarrow> 's \<Rightarrow> jsError + 's"
  exec :: "command list \<Rightarrow> 's \<Rightarrow> jsError + 's"

type_synonym 's isolation = "('s session \<Rightarrow> 's \<Rightarrow> jsError + 's) \<Rightarrow> 's \<Rightarrow> jsError + 's"

text \<open>The function that \<open>hsetall\<close> hands to \<open>executeIsolated\<close>.\<close>

definition hsetallBody ::
  "string \<Rightarrow> (string \<times> string) list \<Rightarrow> 's session \<Rightarrow> 's \<Rightarrow> jsError + 's" where
  "hsetallBody key data isolatedClient s =
     (case watch isolatedClient key s of
        Inl e \<Rightarrow> Inl e
      | Inr s' \<Rightarrow> exec isolatedClient (hSet (unlink multi key) key data) s')"

definition hsetall ::
  "'s isolation \<Rightarrow> string \<Rightarrow> (string \<times> string) list \<Rightarrow> 's \<Rightarrow> shimError + 's" where
  "hsetall executeIsolated key data s =
     (case executeIsolated (hsetallBody key data) s of
        Inl error \<Rightarrow>
          if name error = ''WatchError'' then Inl (RedisError ''Watch error when setting HASH.'')
          else Inl (Rethrown error)
      | Inr s' \<Rightarrow> Inr s')"

subsection \<open>A store to run the gateway against\<close>

text \<open>
  The server and the client library are not part of the repository. This is the
  protocol the gateway relies on: a watch on a key makes the next transaction of
  that session abort when another session has modified the key in between, and
  the client reports the abort as an error named \<open>WatchError\<close>; a transaction
  that commits applies its queue in order. A hash is the list of its fields; a
  key without a hash has none. \<open>down\<close> is a transport failure: while it is set,
  every command fails with it.
\<close>

datatype sessionId = Isolated | Other

record server =
  store :: "string \<Rightarrow> (string \<times> string) list"
  watching :: "string list"
  dirty :: bool
  down :: "jsError option"
  received :: "(sessionId \<times> command) list"

fun applyCommand :: "command \<Rightarrow> (string \<Rightarrow> (string \<times> string) list) \<Rightarrow> (string \<Rightarrow> (string \<times> string) list)" where
  "applyCommand (UNLINK k) st = st(k := [])"
| "applyCommand (HSET k fvs) st = st(k := fold (\<lambda>(f, v). AList.update f v) fvs (st k))"
| "applyCommand _ st = st"

text \<open>Whether a command modifies a key: deleting a key that has a hash, or
  writing fields.\<close>

fun touches :: "(string \<Rightarrow> (string \<times> string) list) \<Rightarrow> command \<Rightarrow> string \<Rightarrow> bool" where
  "touches st (UNLINK k) k' = (k = k' \<and> st k \<noteq> [])"
| "touches st (HSET k fvs) k' = (k = k')"
| "touches st _ k' = False"

text \<open>A command of another session.\<close>

definition runOther :: "command \<Rightarrow> server \<Rightarrow> server" where
  "runOther cmd s =
     s\<lparr>store := applyCommand cmd (store s),
       dirty := (dirty s \<or> (\<exists>k \<in> set (watching s). touches (store s) cmd k)),
       received := received s @ [(Other, cmd)]\<rparr>"

definition watchError :: jsError where
  "watchError = \<lparr>name = ''WatchError'', message = ''One (or more) of the watched keys has been changed''\<rparr>"

definition serverWatch :: "string \<Rightarrow> server \<Rightarrow> jsError + server" where
  "serverWatch key s =
     (case down s of
        Some e \<Rightarrow> Inl e
      | None \<Rightarrow> Inr (s\<lparr>watching := key # watching s, received := received s @ [(Isolated, WATCH key)]\<rparr>))"

text \<open>The commit, after the commands \<open>others\<close> that other sessions run between
  the watch and the commit.\<close>

definition serverExec :: "command list \<Rightarrow> command list \<Rightarrow> server \<Rightarrow> jsError + server" where
  "serverExec others queue s =
     (case down s of
        Some e \<Rightarrow> Inl e
      | None \<Rightarrow>
          let s1 = fold runOther others s;
              s2 = s1\<lparr>received := received s1 @ map (Pair Isolated) (MULTI # queue @ [EXEC])\<rparr>
          in if dirty s1 then Inl watchError
             else Inr (s2\<lparr>store := fold applyCommand queue (store s2), watching := []\<rparr>))"

definition serverIsolated :: "command list \<Rightarrow> server isolation" where
  "serverIsolated others fn s = fn \<lparr>watch = serverWatch, exec = serverExec others\<rparr> s"

text \<open>Whether the commands of other sessions, run in order from a store, modify
  a key.\<close>

fun modifiedBy :: "command list \<Rightarrow> (string \<Rightarrow> (string \<times> string) list) \<Rightarrow> string \<Rightarrow> bool" where
  "modifiedBy [] st k = False"
| "modifiedBy (cmd # cmds) st k = (touches st cmd k \<or> modifiedBy cmds (applyCommand cmd st) k)"

definition emptyServer :: server where
  "emptyServer = \<lparr>store = (\<lambda>_. []), watching = [], dirty = False, down = None, received = []\<rparr>"


definition oldRecord :: server where
  "oldRecord = emptyServer\<lparr>store := (\<lambda>_. [])(''k'' := [(''old'', ''0''), (''f'', ''0'')])\<rparr>"

definition replaced :: server where
  "replaced = oldRecord\<lparr>
     received := [(Isolated, WATCH ''k''), (Other, HSET ''j'' [(''g'', ''5'')]), (Isolated, MULTI),
        (Isolated, UNLINK ''k''), (Isolated, HSET ''k'' [(''f'', ''1'')]), (Isolated, EXEC)],
     store := (\<lambda>_. [])(''j'' := [(''g'', ''5'')], ''k'' := [(''f'', ''1'')])\<rparr>"

section \<open>Notions used in the statements\<close>

text \<open>A location resolves in a value when every key on the way is there.\<close>

fun resolves :: "location \<Rightarrow> ('n, 'd) jsval \<Rightarrow> bool" where
  "resolves [] val = True"
| "resolves (Key k # loc) val =
     (case val of
        Obj fs \<Rightarrow> (case map_of fs k of Some v \<Rightarrow> resolves loc v | None \<Rightarrow> False)
      | _ \<Rightarrow> False)"
| "resolves (Idx i # loc) val =
     (case val of Arr xs \<Rightarrow> i < length xs \<and> resolves loc (xs ! i) | _ \<Rightarrow> False)"

text \<open>A JavaScript object has every property once: the entry lists of a
  well-formed value have distinct keys, at every depth.\<close>

fun wellFormed :: "('n, 'd) jsval \<Rightarrow> bool" where
  "wellFormed (Obj fs) = (distinct (map fst fs) \<and> (\<forall>v \<in> snd ` set fs. wellFormed v))"
| "wellFormed (Arr xs) = (\<forall>v \<in> set xs. wellFormed v)"
| "wellFormed _ = True"

text \<open>An object is clean when no entry of it, or of an object reached from it
  through entries that are objects, is undefined or a date.\<close>

fun clean :: "('n, 'd) jsval \<Rightarrow> bool" where
  "clean (Obj fs) = (\<forall>v \<in> snd ` set fs. \<not> isUndefined v \<and> \<not> isDate v \<and> clean v)"
| "clean _ = True"

fun isKey :: "propKey \<Rightarrow> bool" where
  "isKey (Key _) = True"
| "isKey (Idx _) = False"







section \<open>A helper module to run the transcoder with\<close>

text \<open>
  The examples need a helper module. Here numbers are exact (rationals), the
  time value of a date is its whole number of milliseconds, and a number prints
  as its decimal expansion and is read back from it.
\<close>

definition digitChar :: "nat \<Rightarrow> char" where
  "digitChar n = ''0123456789'' ! n"

fun natToString :: "nat \<Rightarrow> string" where
  "natToString n =
     (if n < 10 then [digitChar n] else natToString (n div 10) @ [digitChar (n mod 10)])"

text \<open>The digits after the decimal point, at most as many as the fuel.\<close>

fun fractionDigits :: "nat \<Rightarrow> rat \<Rightarrow> string" where
  "fractionDigits fuel r =
     (if fuel = 0 \<or> r = 0 then []
      else digitChar (nat \<lfloor>r * 10\<rfloor>)
             # fractionDigits (fuel - 1) (r * 10 - of_int \<lfloor>r * 10\<rfloor>))"

definition decimalToString :: "rat \<Rightarrow> string" where
  "decimalToString r =
     (let a = \<bar>r\<bar>; whole = \<lfloor>a\<rfloor>; rest = a - of_int whole in
        (if r < 0 then ''-'' else [])
        @ natToString (nat whole)
        @ (if rest = 0 then [] else ''.'' @ fractionDigits 20 rest))"

definition digitValue :: "char \<Rightarrow> nat option" where
  "digitValue ch =
     map_of [(CHR ''0'', 0), (CHR ''1'', 1), (CHR ''2'', 2), (CHR ''3'', 3), (CHR ''4'', 4),
             (CHR ''5'', 5), (CHR ''6'', 6), (CHR ''7'', 7), (CHR ''8'', 8), (CHR ''9'', 9)] ch"

text \<open>The number a string of digits reads as, after the digits \<open>acc\<close>.\<close>

fun parseDigits :: "string \<Rightarrow> nat \<Rightarrow> nat option" where
  "parseDigits [] acc = Some acc"
| "parseDigits (ch # s) acc =
     (case digitValue ch of None \<Rightarrow> None | Some d \<Rightarrow> parseDigits s (acc * 10 + d))"

definition parseUnsigned :: "string \<Rightarrow> rat option" where
  "parseUnsigned s =
     (let whole = takeWhile (\<lambda>ch. ch \<noteq> CHR ''.'') s;
          rest = drop (Suc (length whole)) s in
      if whole = [] \<or> (whole \<noteq> s \<and> rest = []) then None
      else case (parseDigits whole 0, parseDigits rest 0) of
             (Some w, Some f) \<Rightarrow> Some (of_nat w + of_nat f / 10 ^ length rest)
           | _ \<Rightarrow> None)"

definition parseDecimal :: "string \<Rightarrow> rat option" where
  "parseDecimal s =
     (case s of
        [] \<Rightarrow> None
      | ch # t \<Rightarrow> if ch = CHR ''-'' then map_option uminus (parseUnsigned t) else parseUnsigned s)"

text \<open>The two numbers of a point string.\<close>

definition parsePoint :: "string \<Rightarrow> (rat \<times> rat) option" where
  "parsePoint s =
     (let lon = takeWhile (\<lambda>ch. ch \<noteq> CHR '','') s;
          lat = drop (Suc (length lon)) s in
      case (parseDecimal lon, parseDecimal lat) of
        (Some x, Some y) \<Rightarrow> Some (x, y)
      | _ \<Rightarrow> None)"

text \<open>
  Modelled from the spec: the conversions of \<open>transformer-common\<close>, which is not
  among the sources. A date is stored as its epoch value in seconds, a point
  \<open>{longitude, latitude}\<close> as the string \<open>"<lon>,<lat>"\<close>. What the runtime
  does on an ISO date string and how it prints a date are arguments.
\<close>

definition exactCommon :: "(string \<Rightarrow> rat) \<Rightarrow> (int \<Rightarrow> string) \<Rightarrow> (rat, int) common" where
  "exactCommon parseIso printDate =
     \<lparr>convertDateToEpoch = (\<lambda>d. of_int d / 1000),
      convertEpochToDate = (\<lambda>n. if n < 0 then \<lceil>n * 1000\<rceil> else \<lfloor>n * 1000\<rfloor>),
      convertIsoDateToEpoch = (\<lambda>s. parseIso s / 1000),
      isPoint = (\<lambda>value.
         case value of
           Obj fs \<Rightarrow>
             (case (map_of fs ''longitude'', map_of fs ''latitude'') of
                (Some (Num x), Some (Num y)) \<Rightarrow> length fs = 2
              | _ \<Rightarrow> False)
         | _ \<Rightarrow> False),
      convertPointToString = (\<lambda>value.
         case (get_at [Key ''longitude''] value, get_at [Key ''latitude''] value) of
           (Num x, Num y) \<Rightarrow> decimalToString x @ '','' @ decimalToString y
         | _ \<Rightarrow> []),
      isPointString = (\<lambda>value.
         case value of Str s \<Rightarrow> parsePoint s \<noteq> None | _ \<Rightarrow> False),
      convertStringToPoint = (\<lambda>value.
         case value of
           Str s \<Rightarrow>
             (case parsePoint s of
                Some (x, y) \<Rightarrow> Obj [(''longitude'', Num x), (''latitude'', Num y)]
              | None \<Rightarrow> Undefined)
         | _ \<Rightarrow> Undefined),
      numberToString = decimalToString,
      dateToString = printDate\<rparr>"

text \<open>The helper module of the examples: none of them reads an ISO date string
  or prints a date.\<close>

definition sampleCommon :: "(rat, int) common" where
  "sampleCommon = exactCommon (\<lambda>s. 0) (\<lambda>d. [])"

section \<open>Documents of the examples\<close>

definition twoNumbers :: "(rat, int) jsobject" where
  "twoNumbers = [(''a'', Arr [Num 1, Num 2])]"

definition nameField :: schemaDef where
  "nameField = [(''name'', \<lparr>type = TString, path = None\<rparr>)]"

definition withUndefined :: "(rat, int) jsobject" where
  "withUndefined = [(''name'', Str ''x''), (''gone'', Undefined)]"

definition labelField :: schemaDef where
  "labelField = [(''when'', \<lparr>type = TString, path = Some [Child ''label'']\<rparr>)]"

definition mixedDocument :: "(rat, int) jsobject" where
  "mixedDocument =
     [(''when'', Date 5000), (''label'', Num 7), (''gone'', Undefined),
      (''nested'', Obj [(''u'', Undefined), (''d'', Date 1500)])]"

definition whenField :: schemaDef where
  "whenField = [(''when'', \<lparr>type = TDate, path = None\<rparr>)]"

definition tagsField :: schemaDef where
  "tagsField = [(''tags'', \<lparr>type = TStringArray, path = Some [Child ''tags'', Wildcard]\<rparr>)]"

definition tagsArrayField :: schemaDef where
  "tagsArrayField = [(''tags'', \<lparr>type = TStringArray, path = None\<rparr>)]"

definition oneAndNull :: "(rat, int) jsobject" where
  "oneAndNull = [(''tags'', Arr [Num 1, Null])]"



text \<open>Modelled from the spec: the conversions of \<open>transformer-common\<close> over the
  store, the same as above. No example prints an object or reads an ISO date
  string.\<close>

definition sampleCommonH :: "(rat, int) commonH" where
  "sampleCommonH =
     \<lparr>convertDateToEpochH = (\<lambda>d. of_int d / 1000),
      convertEpochToDateH = (\<lambda>n. if n < 0 then \<lceil>n * 1000\<rceil> else \<lfloor>n * 1000\<rfloor>),
      convertIsoDateToEpochH = (\<lambda>s. 0),
      isPointH = (\<lambda>h value.
         case target h value of
           Some (HObject fs) \<Rightarrow>
             (case (map_of fs ''longitude'', map_of fs ''latitude'') of
                (Some (HNum x), Some (HNum y)) \<Rightarrow> length fs = 2
              | _ \<Rightarrow> False)
         | _ \<Rightarrow> False),
      convertPointToStringH = (\<lambda>h value.
         case target h value of
           Some (HObject fs) \<Rightarrow>
             (case (map_of fs ''longitude'', map_of fs ''latitude'') of
                (Some (HNum x), Some (HNum y)) \<Rightarrow> decimalToString x @ '','' @ decimalToString y
              | _ \<Rightarrow> [])
         | _ \<Rightarrow> []),
      isPointStringH = (\<lambda>value.
         case value of HStr s \<Rightarrow> parsePoint s \<noteq> None | _ \<Rightarrow> False),
      convertStringToPointH = (\<lambda>value.
         case value of
           HStr s \<Rightarrow>
             (case parsePoint s of
                Some (x, y) \<Rightarrow> [(''longitude'', x), (''latitude'', y)]
              | None \<Rightarrow> [])
         | _ \<Rightarrow> []),
      numberToStringH = decimalToString,
      objectToStringH = (\<lambda>h a. [])\<rparr>"

definition storeFields :: schemaDef where
  "storeFields =
     [(''when'', \<lparr>type = TDate, path = None\<rparr>),
      (''tags'', \<lparr>type = TStringArray, path = None\<rparr>)]"

text \<open>A store with one document, at address 2.\<close>

definition sampleStore :: "(rat, int) heap" where
  "sampleStore =
     [HDate 5000, HArray [HNum 1, HBool True],
      HObject [(''when'', HRef 0), (''gone'', HUndefined), (''tags'', HRef 1)]]"


section \<open>Properties of the store gateway\<close>

lemma fold_runOther_store: "store (fold runOther others s) = fold applyCommand others (store s)"
  by (induction others arbitrary: s) (simp_all add: runOther_def)

lemma fold_runOther_down: "down (fold runOther others s) = down s"
  by (induction others arbitrary: s) (simp_all add: runOther_def)

lemma fold_runOther_received:
  "received (fold runOther others s) = received s @ map (Pair Other) others"
  by (induction others arbitrary: s) (simp_all add: runOther_def)

lemma fold_runOther_dirty:
  "dirty (fold runOther others s) =
     (dirty s \<or> (\<exists>k \<in> set (watching s). modifiedBy others (store s) k))"
  by (induction others arbitrary: s) (auto simp add: runOther_def)

lemma keys_fold_update:
  "fst ` set (fold (\<lambda>(f, v). AList.update f v) fvs acc) = fst ` set acc \<union> fst ` set fvs"
proof (induction fvs arbitrary: acc)
  case Nil
  show ?case by simp
next
  case (Cons p fvs)
  obtain f v where p: "p = (f, v)" by (cases p)
  show ?case unfolding p by (simp add: Cons.IH dom_update)
qed

lemma map_of_fold_update_None:
  "f \<notin> fst ` set fvs \<Longrightarrow> map_of (fold (\<lambda>(f, v). AList.update f v) fvs []) f = None"
  by (simp add: map_of_eq_None_iff keys_fold_update)



text \<open>
  C5. A call of \<open>hsetall\<close> that succeeds has sent, on the isolated session and in
  this order, the watch on the key, then one transaction with the delete of the
  key and the write of the fields, then the commit; commands of other sessions
  come between the watch and the transaction. The hash under the key is then
  the written fields alone: a field that is not in the new field map is not in
  the hash. The call succeeds when the transport is up and no other session
  modifies a watched key in between.
\<close>

theorem hsetall_protocol:
  "(hsetall (serverIsolated others) key data s = Inr s' \<longrightarrow>
      received s' = received s @ (Isolated, WATCH key) # map (Pair Other) others
         @ [(Isolated, MULTI), (Isolated, UNLINK key), (Isolated, HSET key data), (Isolated, EXEC)]
      \<and> store s' key = fold (\<lambda>(f, v). AList.update f v) data []
      \<and> (\<forall>f. f \<notin> fst ` set data \<longrightarrow> map_of (store s' key) f = None))
   \<and> (down s = None \<and> \<not> dirty s
        \<and> (\<forall>k \<in> set (key # watching s). \<not> modifiedBy others (store s) k)
      \<longrightarrow> (\<exists>s'. hsetall (serverIsolated others) key data s = Inr s'))"
  by (auto simp add: hsetall_def serverIsolated_def hsetallBody_def serverWatch_def
      serverExec_def Let_def fold_runOther_dirty fold_runOther_down fold_runOther_received
      fold_runOther_store multi_def unlink_def hSet_def map_of_fold_update_None
      split: option.splits if_splits sum.splits)

theorem hsetall_protocol_witness:
  "hsetall (serverIsolated [HSET ''j'' [(''g'', ''5'')]]) ''k'' [(''f'', ''1'')] oldRecord = Inr replaced
   \<and> map_of (store oldRecord ''k'') ''old'' = Some ''0''
   \<and> ''old'' \<notin> fst ` set [(''f'', ''1'')]
   \<and> map_of (store replaced ''k'') ''old'' = None
   \<and> map_of (store replaced ''k'') ''f'' = Some ''1''
   \<and> down oldRecord = None \<and> \<not> dirty oldRecord \<and> watching oldRecord = []
   \<and> \<not> modifiedBy [HSET ''j'' [(''g'', ''5'')]] (store oldRecord) ''k''"
proof -
  have run: "hsetall (serverIsolated [HSET ''j'' [(''g'', ''5'')]]) ''k'' [(''f'', ''1'')] oldRecord
      = Inr replaced"
    by (simp add: hsetall_def serverIsolated_def hsetallBody_def serverWatch_def serverExec_def
        Let_def runOther_def multi_def unlink_def hSet_def oldRecord_def replaced_def
        emptyServer_def fun_upd_twist)
  have pre: "down oldRecord = None \<and> \<not> dirty oldRecord \<and> watching oldRecord = []
      \<and> \<not> modifiedBy [HSET ''j'' [(''g'', ''5'')]] (store oldRecord) ''k''"
    by (simp add: oldRecord_def emptyServer_def)
  have old: "map_of (store oldRecord ''k'') ''old'' = Some ''0''"
    by (simp add: oldRecord_def emptyServer_def)
  have new: "map_of (store replaced ''k'') ''f'' = Some ''1''"
    by (simp add: replaced_def oldRecord_def emptyServer_def)
  from run pre old new
    hsetall_protocol [of "[HSET ''j'' [(''g'', ''5'')]]" "''k''" "[(''f'', ''1'')]" oldRecord replaced]
  show ?thesis by simp
qed

section \<open>Properties of the transcoder\<close>

subsection \<open>Loops that may throw\<close>

lemma forEachE_append:
  "forEachE f (xs @ ys) s =
     (case forEachE f xs s of Inl e \<Rightarrow> Inl e | Inr s' \<Rightarrow> forEachE f ys s')"
  by (induction xs arbitrary: s) (auto split: sum.splits)

lemma forEachE_invariant:
  assumes "forEachE f xs s = Inr s'"
    and "P s"
    and "\<And>x t t'. x \<in> set xs \<Longrightarrow> P t \<Longrightarrow> f x t = Inr t' \<Longrightarrow> P t'"
  shows "P s'"
  using assms
proof (induction xs arbitrary: s)
  case Nil
  then show ?case by simp
next
  case (Cons x xs)
  from Cons.prems(1) obtain t where t: "f x s = Inr t" and rest: "forEachE f xs t = Inr s'"
    by (auto split: sum.splits)
  have "P t" using Cons.prems(2,3) t by auto
  show ?case
  proof (rule Cons.IH [OF rest \<open>P t\<close>])
    fix y u u'
    assume "y \<in> set xs" "P u" "f y u = Inr u'"
    then show "P u'" using Cons.prems(3) [of y u u'] by simp
  qed
qed

text \<open>
  C3. In the encoder, when the fields before it have been converted and the path
  of a field that is not a string array then has more than one match, the call
  fails with the error that names the path; there is no document.
\<close>

theorem encode_many_matches:
  assumes "convertToRedisJsonKnown c pre (clone data) = Inr json"
    and "1 < length (JSONPath (pathOf fieldName fieldDef) json)"
    and "type fieldDef \<noteq> TStringArray"
  shows "toRedisJson c (pre @ (fieldName, fieldDef) # post) data
           = Inl (FoundMany (pathOf fieldName fieldDef))"
  using assms
  by (simp add: toRedisJson_def convertToRedisJsonKnown_def forEachE_append
      convertKnownResultsToJson_def Let_def)

theorem encode_many_matches_witness:
  "convertToRedisJsonKnown sampleCommon [] (clone twoNumbers) = Inr twoNumbers
   \<and> 1 < length (JSONPath (pathOf ''n'' \<lparr>type = TNumber, path = Some [Child ''a'', Wildcard]\<rparr>) twoNumbers)
   \<and> type \<lparr>type = TNumber, path = Some [Child ''a'', Wildcard]\<rparr> \<noteq> TStringArray
   \<and> toRedisJson sampleCommon [(''n'', \<lparr>type = TNumber, path = Some [Child ''a'', Wildcard]\<rparr>)] twoNumbers
        = Inl (FoundMany [Child ''a'', Wildcard])"
proof -
  have a: "convertToRedisJsonKnown sampleCommon [] (clone twoNumbers) = Inr twoNumbers"
    by (simp add: convertToRedisJsonKnown_def clone_def)
  have b: "1 < length (JSONPath (pathOf ''n'' \<lparr>type = TNumber, path = Some [Child ''a'', Wildcard]\<rparr>) twoNumbers)"
    by (simp add: JSONPath_def pathOf_def twoNumbers_def)
  have d: "type \<lparr>type = TNumber, path = Some [Child ''a'', Wildcard]\<rparr> \<noteq> TStringArray"
    by simp
  from encode_many_matches [OF a b d, of "[]"] a b d show ?thesis
    by (simp add: pathOf_def)
qed

text \<open>
  C2, as the code has it. In the decoder, when the fields before it have been
  converted and the path of a field that is not a string array then has more
  than one match, the field raises no error and rewrites nothing, not the first
  match either: decoding goes on with the next field on the same document.
\<close>

theorem decode_many_matches:
  assumes "convertFromRedisJsonKnown c pre (clone json) = Inr data"
    and "1 < length (JSONPath (pathOf fieldName fieldDef) data)"
    and "type fieldDef \<noteq> TStringArray"
  shows "fromRedisJson c (pre @ (fieldName, fieldDef) # post) json
           = convertFromRedisJsonKnown c post data"
  using assms
  by (simp add: fromRedisJson_def convertFromRedisJsonKnown_def forEachE_append Let_def)

theorem decode_many_matches_witness:
  "convertFromRedisJsonKnown sampleCommon [] (clone twoNumbers) = Inr twoNumbers
   \<and> 1 < length (JSONPath (pathOf ''when'' \<lparr>type = TDate, path = Some [Child ''a'', Wildcard]\<rparr>) twoNumbers)
   \<and> type \<lparr>type = TDate, path = Some [Child ''a'', Wildcard]\<rparr> \<noteq> TStringArray
   \<and> fromRedisJson sampleCommon [(''when'', \<lparr>type = TDate, path = Some [Child ''a'', Wildcard]\<rparr>)] twoNumbers
        = Inr twoNumbers"
proof -
  have a: "convertFromRedisJsonKnown sampleCommon [] (clone twoNumbers) = Inr twoNumbers"
    by (simp add: convertFromRedisJsonKnown_def clone_def)
  have b: "1 < length (JSONPath (pathOf ''when'' \<lparr>type = TDate, path = Some [Child ''a'', Wildcard]\<rparr>) twoNumbers)"
    by (simp add: JSONPath_def pathOf_def twoNumbers_def)
  have d: "type \<lparr>type = TDate, path = Some [Child ''a'', Wildcard]\<rparr> \<noteq> TStringArray"
    by simp
  from decode_many_matches [OF a b d, of "[]"] a b d show ?thesis
    by (simp add: convertFromRedisJsonKnown_def)
qed

text \<open>The first of the two matches would decode to a date; the decoded document
  still holds the number there.\<close>

theorem decode_first_match_counterexample:
  "JSONPath [Child ''a'', Wildcard] twoNumbers
     = [(Num 1, [Key ''a'', Idx 0]), (Num 2, [Key ''a'', Idx 1])]
   \<and> convertKnownValueFromJson sampleCommon \<lparr>type = TDate, path = Some [Child ''a'', Wildcard]\<rparr> (Num 1)
       = Inr (Date 1000)
   \<and> fromRedisJson sampleCommon [(''when'', \<lparr>type = TDate, path = Some [Child ''a'', Wildcard]\<rparr>)] twoNumbers
       = Inr [(''a'', Arr [Num 1, Num 2])]"
  by (simp add: JSONPath_def twoNumbers_def fromRedisJson_def convertFromRedisJsonKnown_def
      pathOf_def clone_def sampleCommon_def exactCommon_def)

declare convertToRedisJsonUnknown.simps [simp del]

subsection \<open>Entry lists\<close>

lemma update_values:
  "x \<in> snd ` set (AList.update k v al) \<Longrightarrow> x = v \<or> x \<in> snd ` set al"
  by (induction al) (auto split: if_splits)

lemma update_append_fresh:
  "k \<notin> fst ` set xs \<Longrightarrow> AList.update k v (xs @ ys) = xs @ AList.update k v ys"
  by (induction xs) auto

lemma delete_append_fresh:
  "k \<notin> fst ` set xs \<Longrightarrow> AList.delete k (xs @ ys) = xs @ AList.delete k ys"
  by (induction xs) auto

lemma distinct_map_of_value:
  "distinct (map fst fs) \<Longrightarrow> (k, v) \<in> set fs \<Longrightarrow> map_of fs k = Some v"
  by simp

lemma map_of_filter_values:
  "distinct (map fst fs) \<Longrightarrow>
     map_of (filter (\<lambda>(k, v). P v) fs) k =
       (case map_of fs k of None \<Rightarrow> None | Some v \<Rightarrow> if P v then Some v else None)"
proof (induction fs)
  case Nil
  show ?case by simp
next
  case (Cons p fs)
  obtain k' v' where p: "p = (k', v')" by (cases p)
  from Cons.prems have fresh: "k' \<notin> fst ` set fs" and d: "distinct (map fst fs)"
    by (simp_all add: p)
  from fresh have none: "map_of fs k' = None"
    by (simp add: map_of_eq_None_iff)
  from fresh have none': "map_of (filter (\<lambda>(k, v). P v) fs) k' = None"
    by (auto simp add: map_of_eq_None_iff)
  show ?case using Cons.IH [OF d] none none' by (simp add: p)
qed

subsection \<open>The cleanup pass as a filter and a map\<close>

text \<open>What the cleanup pass writes for an entry that is not undefined.\<close>

lemma unknown_fold:
  assumes "distinct (map fst todo)" and "fst ` set pre \<inter> fst ` set todo = {}"
  shows "fold (\<lambda>(key, val) json.
            if isUndefined val then AList.delete key json else AList.update key (g val) json)
           todo (pre @ todo)
         = pre @ map (\<lambda>(k, v). (k, g v)) (filter (\<lambda>(k, v). \<not> isUndefined v) todo)"
  using assms
proof (induction todo arbitrary: pre)
  case Nil
  show ?case by simp
next
  case (Cons p todo)
  obtain k v where p: "p = (k, v)" by (cases p)
  from Cons.prems have kpre: "k \<notin> fst ` set pre" and krest: "k \<notin> fst ` set todo"
    and d: "distinct (map fst todo)" and disj: "fst ` set pre \<inter> fst ` set todo = {}"
    by (auto simp add: p)
  show ?case
  proof (cases "isUndefined v")
    case True
    have "AList.delete k (pre @ (k, v) # todo) = pre @ todo"
      using kpre krest by (simp add: delete_append_fresh)
    then show ?thesis using True Cons.IH [OF d disj] by (simp add: p)
  next
    case False
    have step: "AList.update k (g v) (pre @ (k, v) # todo) = (pre @ [(k, g v)]) @ todo"
      using kpre by (simp add: update_append_fresh)
    have disj': "fst ` set (pre @ [(k, g v)]) \<inter> fst ` set todo = {}"
      using disj krest by auto
    show ?thesis using False Cons.IH [OF d disj'] by (simp add: p step)
  qed
qed

lemma convertToRedisJsonUnknown_eq:
  assumes "distinct (map fst json)"
  shows "convertToRedisJsonUnknown c json
         = map (\<lambda>(k, v). (k, if isObject v then Obj (convertToRedisJsonUnknown c (entries v))
                               else convertUnknownValueToJson c v))
             (filter (\<lambda>(k, v). \<not> isUndefined v) json)"
proof -
  let ?g = "\<lambda>v. if isObject v then Obj (convertToRedisJsonUnknown c (entries v))
                  else convertUnknownValueToJson c v"
  have same: "(\<lambda>(key, val) json.
        if isUndefined val then AList.delete key json
        else if isObject val then
          AList.update key (Obj (convertToRedisJsonUnknown c (entries val))) json
        else AList.update key (convertUnknownValueToJson c val) json)
     = (\<lambda>(key, val) json.
        if isUndefined val then AList.delete key json else AList.update key (?g val) json)"
    by (rule ext)+ auto
  have "convertToRedisJsonUnknown c json
      = fold (\<lambda>(key, val) json.
            if isUndefined val then AList.delete key json else AList.update key (?g val) json)
          json ([] @ json)"
    by (subst convertToRedisJsonUnknown.simps) (simp only: same append_Nil)
  also have "\<dots> = [] @ map (\<lambda>(k, v). (k, ?g v)) (filter (\<lambda>(k, v). \<not> isUndefined v) json)"
    by (rule unknown_fold) (use assms in simp_all)
  finally show ?thesis by simp
qed

lemma map_of_convertToRedisJsonUnknown:
  assumes "distinct (map fst json)"
  shows "map_of (convertToRedisJsonUnknown c json) k =
     (case map_of json k of
        None \<Rightarrow> None
      | Some v \<Rightarrow>
          if isUndefined v then None
          else if isObject v then Some (Obj (convertToRedisJsonUnknown c (entries v)))
          else Some (convertUnknownValueToJson c v))"
proof -
  let ?g = "\<lambda>v. if isObject v then Obj (convertToRedisJsonUnknown c (entries v))
                  else convertUnknownValueToJson c v"
  have "map_of (map (\<lambda>(k, v). (k, ?g v)) (filter (\<lambda>(k, v). \<not> isUndefined v) json)) k
      = map_option ?g (map_of (filter (\<lambda>(k, v). \<not> isUndefined v) json) k)"
    by (simp add: map_of_map)
  then show ?thesis
    by (simp add: convertToRedisJsonUnknown_eq [OF assms] map_of_filter_values [OF assms]
        split: option.splits)
qed

subsection \<open>Matches and their locations\<close>

lemma in_enumerate: "(i, v) \<in> set (enumerate 0 xs) \<longleftrightarrow> i < length xs \<and> v = xs ! i"
  by (auto simp add: in_set_enumerate_eq)

lemma trace_scalar:
  "\<not> isObject val \<Longrightarrow> \<not> isArray val \<Longrightarrow> trace (s # expr) val loc = []"
  by (cases s; cases val) simp_all

lemma trace_prefix: "(v, l) \<in> set (trace p val loc0) \<Longrightarrow> \<exists>l'. l = loc0 @ l'"
proof (induction p arbitrary: val loc0)
  case Nil
  then show ?case by simp
next
  case (Cons s p)
  show ?case
  proof (cases s)
    case (Child k)
    with Cons.prems obtain fs w where "(v, l) \<in> set (trace p w (loc0 @ [Key k]))"
      by (cases val) (auto split: option.splits)
    from Cons.IH [OF this] show ?thesis by auto
  next
    case Wildcard
    with Cons.prems obtain w q where "(v, l) \<in> set (trace p w (loc0 @ [q]))"
      by (cases val) auto
    from Cons.IH [OF this] show ?thesis by auto
  qed
qed

lemma trace_locations:
  assumes "wellFormed val" and "(v, l) \<in> set (trace p val loc0)"
  shows "\<exists>l'. l = loc0 @ l' \<and> resolves l' val \<and> get_at l' val = v"
  using assms
proof (induction p arbitrary: val loc0)
  case Nil
  then show ?case by simp
next
  case (Cons s p)
  show ?case
  proof (cases s)
    case (Child k)
    with Cons.prems(2) obtain fs w where val: "val = Obj fs" and w: "map_of fs k = Some w"
      and mem: "(v, l) \<in> set (trace p w (loc0 @ [Key k]))"
      by (cases val) (auto split: option.splits dest: sym)
    from w have "w \<in> snd ` set fs" by (force dest: map_of_SomeD)
    with Cons.prems(1) val have "wellFormed w" by auto
    from Cons.IH [OF this mem] obtain l' where "l = (loc0 @ [Key k]) @ l'"
      "resolves l' w" "get_at l' w = v" by blast
    then have "l = loc0 @ (Key k # l') \<and> resolves (Key k # l') val \<and> get_at (Key k # l') val = v"
      using val w by simp
    then show ?thesis by blast
  next
    case Wildcard
    show ?thesis
    proof (cases val)
      case (Obj fs)
      with Wildcard Cons.prems(2) obtain k w where kw: "(k, w) \<in> set fs"
        and mem: "(v, l) \<in> set (trace p w (loc0 @ [Key k]))"
        by auto
      from kw Cons.prems(1) Obj have "wellFormed w" and "map_of fs k = Some w"
        by force+
      from Cons.IH [OF this(1) mem] obtain l' where "l = (loc0 @ [Key k]) @ l'"
        "resolves l' w" "get_at l' w = v" by blast
      then have "l = loc0 @ (Key k # l') \<and> resolves (Key k # l') val \<and> get_at (Key k # l') val = v"
        using Obj \<open>map_of fs k = Some w\<close> by simp
      then show ?thesis by blast
    next
      case (Arr xs)
      with Wildcard Cons.prems(2) obtain i w where iw: "(i, w) \<in> set (enumerate 0 xs)"
        and mem: "(v, l) \<in> set (trace p w (loc0 @ [Idx i]))"
        by auto
      from iw have i: "i < length xs" "w = xs ! i" by (simp_all add: in_enumerate)
      with Cons.prems(1) Arr have "wellFormed w" by simp
      from Cons.IH [OF this mem] obtain l' where "l = (loc0 @ [Idx i]) @ l'"
        "resolves l' w" "get_at l' w = v" by blast
      then have "l = loc0 @ (Idx i # l') \<and> resolves (Idx i # l') val \<and> get_at (Idx i # l') val = v"
        using Arr i by simp
      then show ?thesis by blast
    qed (use Wildcard Cons.prems(2) in simp_all)
  qed
qed

lemma wellFormed_get_at: "wellFormed val \<Longrightarrow> wellFormed (get_at l val)"
proof (induction l arbitrary: val)
  case Nil
  then show ?case by simp
next
  case (Cons q l)
  show ?case
  proof (cases q)
    case (Key k)
    show ?thesis
    proof (cases val)
      case (Obj fs)
      show ?thesis
      proof (cases "map_of fs k")
        case None
        then show ?thesis using Key Obj by simp
      next
        case (Some w)
        then have "w \<in> snd ` set fs" by (force dest: map_of_SomeD)
        with Cons.prems Obj have "wellFormed w" by auto
        from Cons.IH [OF this] show ?thesis using Key Obj Some by simp
      qed
    qed (use Key in simp_all)
  next
    case (Idx i)
    show ?thesis
    proof (cases val)
      case (Arr xs)
      show ?thesis
      proof (cases "i < length xs")
        case True
        with Cons.prems Arr have "wellFormed (xs ! i)" by simp
        from Cons.IH [OF this] show ?thesis using Idx Arr True by simp
      next
        case False
        then show ?thesis using Idx Arr by simp
      qed
    qed (use Idx in simp_all)
  qed
qed

lemma wellFormed_match:
  assumes "wellFormed (Obj json)" and "(v, l) \<in> set (JSONPath p json)"
  shows "wellFormed v"
proof -
  from trace_locations [OF assms(1)] assms(2) obtain l' where "get_at l' (Obj json) = v"
    unfolding JSONPath_def by blast
  with wellFormed_get_at [OF assms(1), of l'] show ?thesis by simp
qed

subsection \<open>Writing at a location\<close>

lemma set_at_same: "resolves l val \<Longrightarrow> set_at l (get_at l val) val = val"
proof (induction l arbitrary: val)
  case Nil
  show ?case by simp
next
  case (Cons q l)
  show ?case
  proof (cases q)
    case (Key k)
    with Cons.prems obtain fs w where val: "val = Obj fs" and w: "map_of fs k = Some w"
      and r: "resolves l w"
      by (cases val) (auto split: option.splits)
    from Cons.IH [OF r] show ?thesis using Key val w by (simp add: update_triv)
  next
    case (Idx i)
    with Cons.prems obtain xs where val: "val = Arr xs" and i: "i < length xs"
      and r: "resolves l (xs ! i)"
      by (cases val) auto
    from Cons.IH [OF r] show ?thesis using Idx val i by simp
  qed
qed

lemma wellFormed_set_at:
  "wellFormed val \<Longrightarrow> wellFormed new \<Longrightarrow> wellFormed (set_at l new val)"
proof (induction l arbitrary: val)
  case Nil
  then show ?case by simp
next
  case (Cons q l)
  show ?case
  proof (cases q)
    case (Key k)
    show ?thesis
    proof (cases val)
      case (Obj fs)
      from Cons.prems(1) Obj have d: "distinct (map fst fs)"
        and vs: "\<forall>v \<in> snd ` set fs. wellFormed v" by simp_all
      show ?thesis
      proof (cases "map_of fs k")
        case None
        have "\<forall>v \<in> snd ` set (AList.update k new fs). wellFormed v"
          using vs Cons.prems(2) by (auto dest!: update_values [OF imageI])
        then show ?thesis using Key Obj None d Cons.prems(1)
          by (simp add: distinct_update)
      next
        case (Some w)
        then have "w \<in> snd ` set fs" by (force dest: map_of_SomeD)
        with vs have "wellFormed w" by auto
        from Cons.IH [OF this Cons.prems(2)] have new': "wellFormed (set_at l new w)" .
        have "\<forall>v \<in> snd ` set (AList.update k (set_at l new w) fs). wellFormed v"
          using vs new' by (auto dest!: update_values [OF imageI])
        then show ?thesis using Key Obj Some d by (simp add: distinct_update)
      qed
    qed (use Key Cons.prems in simp_all)
  next
    case (Idx i)
    show ?thesis
    proof (cases val)
      case (Arr xs)
      show ?thesis
      proof (cases "i < length xs")
        case True
        with Cons.prems(1) Arr have "wellFormed (xs ! i)" by simp
        from Cons.IH [OF this Cons.prems(2)] have "wellFormed (set_at l new (xs ! i))" .
        then show ?thesis using Idx Arr True Cons.prems(1)
          by (auto dest!: set_update_subset_insert [THEN subsetD])
      next
        case False
        then show ?thesis using Idx Arr Cons.prems(1) by simp
      qed
    qed (use Idx Cons.prems in simp_all)
  qed
qed

lemma wellFormed_assign:
  assumes "assign loc new json = Inr json'" and "wellFormed (Obj json)" and "wellFormed new"
  shows "wellFormed (Obj json')"
proof -
  have "wellFormed (set_at loc new (Obj json))"
    using assms(2,3) by (rule wellFormed_set_at)
  with assms(1,2) show ?thesis
    by (cases "set_at loc new (Obj json)") (auto simp add: assign_def split: if_splits)
qed

lemma assign_top:
  assumes "assign (Key k' # l) new json = Inr json'" and "k' \<noteq> k"
  shows "map_of json' k = map_of json k"
    and "distinct (map fst json) \<Longrightarrow> distinct (map fst json')"
  using assms
  by (auto simp add: assign_def update_conv' distinct_update split: option.splits if_splits)

subsection \<open>What the encoder keeps\<close>

lemma mapE_Inr_set: "mapE f xs = Inr ys \<Longrightarrow> y \<in> set ys \<Longrightarrow> \<exists>x \<in> set xs. f x = Inr y"
  by (induction xs arbitrary: ys) (auto split: sum.splits)

lemma convertKnownValueToJson_TString:
  "\<not> isNull v \<Longrightarrow> convertKnownValueToJson c TString v = convertKnownValueToString c v"
  by simp

text \<open>
  A property of the document that every write of the encoder keeps is kept by
  the conversion of the known fields. \<open>M\<close> is what the property says of the
  matches of a path.
\<close>

lemma encode_invariant:
  assumes run: "convertToRedisJsonKnown c schema json = Inr json'"
    and start: "P json"
    and match: "\<And>t p v loc. P t \<Longrightarrow> (v, loc) \<in> set (JSONPath p t) \<Longrightarrow> M v loc"
    and upd: "\<And>t v loc T new t'. P t \<Longrightarrow> M v loc \<Longrightarrow> isDefined v \<Longrightarrow>
        convertKnownValueToJson c T v = Inr new \<Longrightarrow> assign loc new t = Inr t' \<Longrightarrow> P t'"
  shows "P json'"
proof (rule forEachE_invariant [where P = P, OF run [unfolded convertToRedisJsonKnown_def] start])
  fix x :: "string \<times> fieldDef" and t t' :: "('a, 'b) jsobject"
  assume Pt: "P t"
  obtain fieldName fieldDef where x: "x = (fieldName, fieldDef)" by (cases x)
  define results where "results = JSONPath (pathOf fieldName fieldDef) t"
  have ms: "\<And>v loc. (v, loc) \<in> set results \<Longrightarrow> M v loc"
    unfolding results_def using match [OF Pt] by blast
  assume "(case x of (fieldName, fieldDef) \<Rightarrow> \<lambda>json.
       let results = JSONPath (pathOf fieldName fieldDef) json in
       if length results = 1 then convertKnownResultToJson c (type fieldDef) (results ! 0) json
       else if length results > 1 then
         convertKnownResultsToJson c (type fieldDef) (pathOf fieldName fieldDef) results json
       else Inr json) t = Inr t'"
  then have step: "(if length results = 1
       then convertKnownResultToJson c (type fieldDef) (results ! 0) t
       else if length results > 1 then
         convertKnownResultsToJson c (type fieldDef) (pathOf fieldName fieldDef) results t
       else Inr t) = Inr t'"
    by (auto simp add: x results_def Let_def split: if_splits)
  consider (none) "length results = 0" | (one) "length results = 1" | (many) "1 < length results"
    by linarith
  then show "P t'"
  proof cases
    case none
    with step Pt show ?thesis by simp
  next
    case one
    obtain v loc where r: "results ! 0 = (v, loc)" by (cases "results ! 0")
    from one have "results ! 0 \<in> set results" by simp
    with r have M: "M v loc" using ms by simp
    from step one r show ?thesis
      using Pt M upd [OF Pt M]
      by (auto simp add: convertKnownResultToJson_def split: if_splits sum.splits)
  next
    case many
    with step have T: "type fieldDef = TStringArray"
      and loop: "forEachE (\<lambda>(value, loc) json.
          if isNull value then Inl (ContainsNull (parent loc json))
          else if isUndefined value \<and> isArray (parent loc json)
            then Inl (ContainsUndefined (parent loc json))
          else if isDefined value then
            (case convertKnownValueToString c value of
               Inl e \<Rightarrow> Inl e
             | Inr new \<Rightarrow> assign loc new json)
          else Inr json) results t = Inr t'"
      by (auto simp add: convertKnownResultsToJson_def split: if_splits)
    show ?thesis
    proof (rule forEachE_invariant [where P = P, OF loop Pt])
      fix y :: "('a, 'b) jsval \<times> location" and u u' :: "('a, 'b) jsobject"
      assume y: "y \<in> set results" and Pu: "P u"
      obtain v loc where yv: "y = (v, loc)" by (cases y)
      from y yv have M: "M v loc" using ms by simp
      assume "(case y of (value, loc) \<Rightarrow> \<lambda>json.
          if isNull value then Inl (ContainsNull (parent loc json))
          else if isUndefined value \<and> isArray (parent loc json)
            then Inl (ContainsUndefined (parent loc json))
          else if isDefined value then
            (case convertKnownValueToString c value of
               Inl e \<Rightarrow> Inl e
             | Inr new \<Rightarrow> assign loc new json)
          else Inr json) u = Inr u'"
      then show "P u'"
        using Pu upd [OF Pu M, of TString]
        by (auto simp add: yv simp del: convertKnownValueToString.simps
            split: if_splits sum.splits)
    qed
  qed
qed

lemma wellFormed_convertKnownValueToJson:
  assumes "convertKnownValueToJson c T v = Inr new" and "wellFormed v"
  shows "wellFormed new"
proof (cases "\<exists>xs. T = TStringArray \<and> v = Arr xs")
  case True
  then obtain xs where T: "T = TStringArray" and v: "v = Arr xs" by blast
  with assms(1) obtain ys where ys: "convertArrayToStringArray c xs = Inr ys" and new: "new = Arr ys"
    by (cases "convertArrayToStringArray c xs") auto
  have "wellFormed y" if "y \<in> set ys" for y
  proof -
    from mapE_Inr_set [OF ys [unfolded convertArrayToStringArray_def] that]
    obtain x where "(if isNull x then Inl (ContainsNull (Arr xs))
        else if isUndefined x then Inl (ContainsUndefined (Arr xs))
        else map_sum id Str (toString c x)) = Inr y" by blast
    then show ?thesis
      by (cases "toString c x") (auto split: if_splits)
  qed
  with new show ?thesis by simp
next
  case False
  with assms show ?thesis
    by (cases T; cases v) (auto split: if_splits)
qed

lemma wellFormed_convertToRedisJsonKnown:
  assumes "convertToRedisJsonKnown c schema json = Inr json'" and "wellFormed (Obj json)"
  shows "wellFormed (Obj json')"
proof (rule encode_invariant [OF assms(1), where P = "\<lambda>t. wellFormed (Obj t)"
      and M = "\<lambda>v loc. wellFormed v"])
  show "wellFormed (Obj json)" by fact
next
  fix t :: "('a, 'b) jsobject" and p v loc
  assume "wellFormed (Obj t)" "(v, loc) \<in> set (JSONPath p t)"
  then show "wellFormed v" by (rule wellFormed_match)
next
  fix t t' :: "('a, 'b) jsobject" and v new :: "('a, 'b) jsval" and loc T
  assume "wellFormed (Obj t)" "wellFormed v" "convertKnownValueToJson c T v = Inr new"
    "assign loc new t = Inr t'"
  then show "wellFormed (Obj t')"
    using wellFormed_assign wellFormed_convertKnownValueToJson by blast
qed

lemma JSONPath_avoids_undefined:
  assumes d: "distinct (map fst json)" and u: "map_of json k = Some Undefined"
    and m: "(v, loc) \<in> set (JSONPath p json)" and v: "isDefined v"
  shows "loc = [] \<or> (\<exists>k' l'. loc = Key k' # l' \<and> k' \<noteq> k)"
proof (cases p)
  case Nil
  with m show ?thesis by (simp add: JSONPath_def)
next
  case (Cons s expr)
  have under: "False" if "(v, loc) \<in> set (trace expr Undefined l)" for l
    using that v by (cases expr) (simp_all add: isDefined_def trace_scalar)
  show ?thesis
  proof (cases s)
    case (Child name)
    with m Cons obtain w where w: "map_of json name = Some w"
      and mem: "(v, loc) \<in> set (trace expr w [Key name])"
      by (auto simp add: JSONPath_def split: option.splits dest: sym)
    from trace_prefix [OF mem] obtain l' where loc: "loc = Key name # l'" by auto
    have "name \<noteq> k" using w u mem under by auto
    with loc show ?thesis by simp
  next
    case Wildcard
    with m Cons obtain name w where w: "(name, w) \<in> set json"
      and mem: "(v, loc) \<in> set (trace expr w [Key name])"
      by (auto simp add: JSONPath_def)
    from trace_prefix [OF mem] obtain l' where loc: "loc = Key name # l'" by auto
    from d w have "map_of json name = Some w" by simp
    then have "name \<noteq> k" using u mem under by auto
    with loc show ?thesis by simp
  qed
qed

lemma convertToRedisJsonKnown_keeps_undefined:
  assumes "convertToRedisJsonKnown c schema json = Inr json'"
    and "distinct (map fst json)" and "map_of json k = Some Undefined"
  shows "distinct (map fst json') \<and> map_of json' k = Some Undefined"
proof (rule encode_invariant [OF assms(1),
      where P = "\<lambda>t. distinct (map fst t) \<and> map_of t k = Some Undefined"
      and M = "\<lambda>v loc. isDefined v \<longrightarrow> loc = [] \<or> (\<exists>k' l'. loc = Key k' # l' \<and> k' \<noteq> k)"])
  show "distinct (map fst json) \<and> map_of json k = Some Undefined"
    using assms(2,3) by simp
next
  fix t :: "('a, 'b) jsobject" and p v loc
  assume "distinct (map fst t) \<and> map_of t k = Some Undefined" "(v, loc) \<in> set (JSONPath p t)"
  then show "isDefined v \<longrightarrow> loc = [] \<or> (\<exists>k' l'. loc = Key k' # l' \<and> k' \<noteq> k)"
    using JSONPath_avoids_undefined by blast
next
  fix t t' :: "('a, 'b) jsobject" and v new :: "('a, 'b) jsval" and loc T
  assume P: "distinct (map fst t) \<and> map_of t k = Some Undefined"
    and M: "isDefined v \<longrightarrow> loc = [] \<or> (\<exists>k' l'. loc = Key k' # l' \<and> k' \<noteq> k)"
    and v: "isDefined v" and a: "assign loc new t = Inr t'"
  from a have "loc \<noteq> []" by (auto simp add: assign_def split: if_splits)
  with M v obtain k' l' where loc: "loc = Key k' # l'" and k': "k' \<noteq> k" by blast
  from assign_top [OF a [unfolded loc] k'] P
  show "distinct (map fst t') \<and> map_of t' k = Some Undefined" by simp
qed

text \<open>
  C6. When the input object has a key whose value is undefined, a document that
  the encoder returns does not have the key, with any value.
\<close>

theorem encode_drops_undefined:
  assumes "distinct (map fst data)" and "map_of data key = Some Undefined"
    and "toRedisJson c schema data = Inr out"
  shows "key \<notin> fst ` set out"
proof -
  from assms(3) obtain json where known: "convertToRedisJsonKnown c schema data = Inr json"
    and out: "out = convertToRedisJsonUnknown c json"
    by (auto simp add: toRedisJson_def clone_def split: sum.splits)
  from convertToRedisJsonKnown_keeps_undefined [OF known assms(1,2)]
  have d: "distinct (map fst json)" and u: "map_of json key = Some Undefined" by simp_all
  have "map_of out key = None"
    unfolding out by (simp add: map_of_convertToRedisJsonUnknown [OF d] u)
  then show ?thesis by (simp add: map_of_eq_None_iff)
qed

subsection \<open>The cleanup pass\<close>

lemma cleanup_entry:
  assumes d: "distinct (map fst json)" and w: "w \<in> snd ` set (convertToRedisJsonUnknown c json)"
  obtains k v where "(k, v) \<in> set json" and "\<not> isUndefined v"
    and "w = (if isObject v then Obj (convertToRedisJsonUnknown c (entries v))
              else convertUnknownValueToJson c v)"
  using w unfolding convertToRedisJsonUnknown_eq [OF d] by auto

lemma clean_convertToRedisJsonUnknown:
  "wellFormed (Obj json) \<Longrightarrow> clean (Obj (convertToRedisJsonUnknown c json))"
proof (induction c json rule: convertToRedisJsonUnknown.induct)
  case (1 c json)
  from "1.prems" have d: "distinct (map fst json)" by simp
  have "\<not> isUndefined w \<and> \<not> isDate w \<and> clean w"
    if "w \<in> snd ` set (convertToRedisJsonUnknown c json)" for w
  proof -
    from cleanup_entry [OF d that] obtain k v where kv: "(k, v) \<in> set json"
      and u: "\<not> isUndefined v"
      and w: "w = (if isObject v then Obj (convertToRedisJsonUnknown c (entries v))
              else convertUnknownValueToJson c v)" by blast
    from kv "1.prems" have wf: "wellFormed v" by auto
    show ?thesis
    proof (cases "isObject v")
      case True
      then obtain fs where v: "v = Obj fs" by (cases v) simp_all
      from "1.IH" [OF kv refl u True] wf v
      have "clean (Obj (convertToRedisJsonUnknown c fs))" by simp
      with True w v show ?thesis by simp
    next
      case False
      with w u show ?thesis by (cases v) simp_all
    qed
  qed
  then show ?case by simp
qed

lemma date_converted:
  "wellFormed (Obj json) \<Longrightarrow> list_all isKey loc \<Longrightarrow> get_at loc (Obj json) = Date d \<Longrightarrow>
     get_at loc (Obj (convertToRedisJsonUnknown c json)) = Num (convertDateToEpoch c d)"
proof (induction loc arbitrary: json)
  case Nil
  then show ?case by simp
next
  case (Cons q loc)
  from Cons.prems(2) obtain k where q: "q = Key k" and keys: "list_all isKey loc"
    by (cases q) simp_all
  from Cons.prems(1) have dist: "distinct (map fst json)" by simp
  from Cons.prems(3) q obtain w where w: "map_of json k = Some w" and at: "get_at loc w = Date d"
    by (cases "map_of json k") simp_all
  from w have "w \<in> snd ` set json" by (force dest: map_of_SomeD)
  with Cons.prems(1) have wf: "wellFormed w" by auto
  show ?case
  proof (cases loc)
    case Nil
    with at have "w = Date d" by simp
    then show ?thesis using q w Nil
      by (simp add: map_of_convertToRedisJsonUnknown [OF dist])
  next
    case (Cons q' loc')
    with keys obtain k' where q': "q' = Key k'" by (cases q') simp_all
    from at Cons q' obtain fs where fs: "w = Obj fs" by (cases w) simp_all
    from Cons.IH [OF _ keys, of fs] wf at fs
    have "get_at loc (Obj (convertToRedisJsonUnknown c fs)) = Num (convertDateToEpoch c d)"
      by simp
    then show ?thesis using q w fs
      by (simp add: map_of_convertToRedisJsonUnknown [OF dist])
  qed
qed

lemma get_at_scalar: "\<not> isObject w \<Longrightarrow> \<not> isArray w \<Longrightarrow> get_at (q # l) w = Undefined"
  by (cases q; cases w) simp_all

lemma null_kept:
  "wellFormed (Obj json) \<Longrightarrow> resolves loc (Obj json) \<Longrightarrow> get_at loc (Obj json) = Null \<Longrightarrow>
     get_at loc (Obj (convertToRedisJsonUnknown c json)) = Null"
proof (induction loc arbitrary: json)
  case Nil
  then show ?case by simp
next
  case (Cons q loc)
  from Cons.prems(2) obtain k w where q: "q = Key k" and w: "map_of json k = Some w"
    and r: "resolves loc w"
    by (cases q) (auto split: option.splits)
  from Cons.prems(3) q w have at: "get_at loc w = Null" by simp
  from Cons.prems(1) have dist: "distinct (map fst json)" by simp
  from w have "w \<in> snd ` set json" by (force dest: map_of_SomeD)
  with Cons.prems(1) have wf: "wellFormed w" by auto
  show ?case
  proof (cases "isObject w")
    case True
    then obtain fs where fs: "w = Obj fs" by (cases w) simp_all
    from Cons.IH [of fs] wf r at fs
    have "get_at loc (Obj (convertToRedisJsonUnknown c fs)) = Null" by simp
    then show ?thesis using q w fs
      by (simp add: map_of_convertToRedisJsonUnknown [OF dist])
  next
    case False
    have "\<not> isUndefined w \<and> \<not> isDate w"
      using at by (cases loc; cases w) (simp_all add: get_at_scalar)
    with False have "convertUnknownValueToJson c w = w" by (cases w) simp_all
    then show ?thesis using q w False at \<open>\<not> isUndefined w \<and> \<not> isDate w\<close>
      by (simp add: map_of_convertToRedisJsonUnknown [OF dist])
  qed
qed

text \<open>
  C10. A document that the encoder returns is the cleanup of the whole document
  that the conversion of the known fields left, whatever the schema declares:
  it is clean (no entry of it, or of an object reached through entries that are
  objects, is undefined or a date), and where the conversion of the known
  fields left a date at such a position, it has the epoch value of the date.
\<close>

theorem encode_cleanup:
  assumes "wellFormed (Obj data)" and "toRedisJson c schema data = Inr out"
  shows "clean (Obj out)
     \<and> (\<exists>json. convertToRedisJsonKnown c schema data = Inr json
           \<and> out = convertToRedisJsonUnknown c json
           \<and> (\<forall>loc d. list_all isKey loc \<and> get_at loc (Obj json) = Date d
                 \<longrightarrow> get_at loc (Obj out) = Num (convertDateToEpoch c d)))"
proof -
  from assms(2) obtain json where known: "convertToRedisJsonKnown c schema data = Inr json"
    and out: "out = convertToRedisJsonUnknown c json"
    by (auto simp add: toRedisJson_def clone_def split: sum.splits)
  from wellFormed_convertToRedisJsonKnown [OF known assms(1)] have wf: "wellFormed (Obj json)" .
  from clean_convertToRedisJsonUnknown [OF wf] have "clean (Obj out)" by (simp add: out)
  moreover have "\<forall>loc d. list_all isKey loc \<and> get_at loc (Obj json) = Date d
      \<longrightarrow> get_at loc (Obj out) = Num (convertDateToEpoch c d)"
    using date_converted [OF wf] by (simp add: out)
  ultimately show ?thesis using known out by blast
qed

text \<open>
  C8. The conversion of a value gives null for null, for every declared type and
  in both directions. In a document, when the path of a field has one match and
  the match is null, the encoder returns a document with null at the location of
  the match, and the decoder returns the document as it was.
\<close>

theorem null_passes_through:
  "convertKnownValueToJson c T Null = Inr Null
   \<and> convertKnownValueFromJson c fieldDef Null = Inr Null
   \<and> (wellFormed (Obj data) \<and> JSONPath (pathOf fieldName fieldDef) data = [(Null, loc)]
       \<longrightarrow> (\<exists>out. toRedisJson c [(fieldName, fieldDef)] data = Inr out
                  \<and> get_at loc (Obj out) = Null)
          \<and> fromRedisJson c [(fieldName, fieldDef)] data = Inr data)"
proof -
  have doc: "(\<exists>out. toRedisJson c [(fieldName, fieldDef)] data = Inr out
                  \<and> get_at loc (Obj out) = Null)
          \<and> fromRedisJson c [(fieldName, fieldDef)] data = Inr data"
    if wf: "wellFormed (Obj data)"
      and one: "JSONPath (pathOf fieldName fieldDef) data = [(Null, loc)]"
  proof -
    from one have "(Null, loc) \<in> set (trace (pathOf fieldName fieldDef) (Obj data) [])"
      by (simp add: JSONPath_def)
    from trace_locations [OF wf this]
    have r: "resolves loc (Obj data)" and at: "get_at loc (Obj data) = Null" by simp_all
    from at have ne: "loc \<noteq> []" by auto
    from set_at_same [OF r] at have same: "set_at loc Null (Obj data) = Obj data" by simp
    have a: "assign loc Null data = Inr data"
      using ne same by (simp add: assign_def)
    have enc: "toRedisJson c [(fieldName, fieldDef)] data = Inr (convertToRedisJsonUnknown c data)"
      using one a
      by (simp add: toRedisJson_def clone_def convertToRedisJsonKnown_def
          convertKnownResultToJson_def isDefined_def)
    have dec: "fromRedisJson c [(fieldName, fieldDef)] data = Inr data"
      using one a by (simp add: fromRedisJson_def clone_def convertFromRedisJsonKnown_def)
    from enc dec null_kept [OF wf r at] show ?thesis by simp
  qed
  show ?thesis using doc by simp
qed


subsection \<open>The claims about undefined, null and the cleanup, on documents\<close>

lemmas encode_defs =
  toRedisJson_def clone_def convertToRedisJsonKnown_def convertKnownResultToJson_def
  convertKnownResultsToJson_def JSONPath_def pathOf_def isDefined_def assign_def parent_def
  convertToRedisJsonUnknown.simps

lemmas decode_defs =
  fromRedisJson_def clone_def convertFromRedisJsonKnown_def convertKnownResultsFromJson_def
  JSONPath_def pathOf_def assign_def parent_def

lemmas sample_defs =
  sampleCommon_def exactCommon_def decimalToString_def digitChar_def Let_def

theorem encode_drops_undefined_witness:
  "distinct (map fst withUndefined)
   \<and> map_of withUndefined ''gone'' = Some Undefined
   \<and> toRedisJson sampleCommon nameField withUndefined = Inr [(''name'', Str ''x'')]
   \<and> ''gone'' \<notin> fst ` set [(''name'', Str ''x'') :: string \<times> (rat, int) jsval]"
proof -
  have d: "distinct (map fst withUndefined)" and u: "map_of withUndefined ''gone'' = Some Undefined"
    by (simp_all add: withUndefined_def)
  have run: "toRedisJson sampleCommon nameField withUndefined = Inr [(''name'', Str ''x'')]"
    by (simp add: encode_defs nameField_def withUndefined_def)
  from encode_drops_undefined [OF d u run] d u run show ?thesis by simp
qed

theorem encode_cleanup_witness:
  "wellFormed (Obj mixedDocument)
   \<and> toRedisJson sampleCommon labelField mixedDocument
       = Inr [(''when'', Num 5), (''label'', Str ''7''), (''nested'', Obj [(''d'', Num (3 / 2))])]
   \<and> clean (Obj [(''when'', Num 5), (''label'', Str ''7''),
        (''nested'', Obj [(''d'', Num (3 / 2))]) :: string \<times> (rat, int) jsval])"
proof -
  have wf: "wellFormed (Obj mixedDocument)"
    by (simp add: mixedDocument_def)
  have run: "toRedisJson sampleCommon labelField mixedDocument
       = Inr [(''when'', Num 5), (''label'', Str ''7''), (''nested'', Obj [(''d'', Num (3 / 2))])]"
    by (simp add: encode_defs sample_defs labelField_def mixedDocument_def)
  from encode_cleanup [OF wf run] wf run show ?thesis by simp
qed

theorem null_passes_through_witness:
  "wellFormed (Obj [(''when'', Null :: (rat, int) jsval)])
   \<and> JSONPath (pathOf ''when'' \<lparr>type = TDate, path = None\<rparr>) [(''when'', Null :: (rat, int) jsval)]
       = [(Null, [Key ''when''])]
   \<and> toRedisJson sampleCommon whenField [(''when'', Null)] = Inr [(''when'', Null)]
   \<and> fromRedisJson sampleCommon whenField [(''when'', Null)] = Inr [(''when'', Null)]"
proof -
  have wf: "wellFormed (Obj [(''when'', Null :: (rat, int) jsval)])"
    by simp
  have one: "JSONPath (pathOf ''when'' \<lparr>type = TDate, path = None\<rparr>) [(''when'', Null :: (rat, int) jsval)]
       = [(Null, [Key ''when''])]"
    by (simp add: JSONPath_def pathOf_def)
  have enc: "toRedisJson sampleCommon whenField [(''when'', Null)] = Inr [(''when'', Null)]"
    by (simp add: encode_defs whenField_def)
  from null_passes_through [of sampleCommon TDate "\<lparr>type = TDate, path = None\<rparr>"
      "[(''when'', Null)]" "''when''" "[Key ''when'']"] wf one enc
  show ?thesis by (simp add: whenField_def)
qed

subsection \<open>Null in a string array\<close>

lemma trace_length: "(v, l) \<in> set (trace p val loc0) \<Longrightarrow> length l = length loc0 + length p"
proof (induction p arbitrary: val loc0)
  case Nil
  then show ?case by simp
next
  case (Cons s p)
  show ?case
  proof (cases s)
    case (Child k)
    with Cons.prems obtain w where "(v, l) \<in> set (trace p w (loc0 @ [Key k]))"
      by (cases val) (auto split: option.splits)
    from Cons.IH [OF this] show ?thesis by simp
  next
    case Wildcard
    with Cons.prems obtain w q where "(v, l) \<in> set (trace p w (loc0 @ [q]))"
      by (cases val) auto
    from Cons.IH [OF this] show ?thesis by simp
  qed
qed

lemma many_matches_locations:
  assumes "1 < length (JSONPath p json)" and "(v, l) \<in> set (JSONPath p json)"
  shows "l \<noteq> []"
proof -
  from assms(1) have "p \<noteq> []" by (cases p) (simp_all add: JSONPath_def)
  with trace_length [OF assms(2) [unfolded JSONPath_def]] show ?thesis by auto
qed

lemma mapE_fails: "x \<in> set xs \<Longrightarrow> f x = Inl e \<Longrightarrow> \<exists>e'. mapE f xs = Inl e'"
  by (induction xs) (auto split: sum.splits)

lemma mapE_first_failure:
  "\<forall>x \<in> set pre. \<exists>y. f x = Inr y \<Longrightarrow> f z = Inl e \<Longrightarrow> mapE f (pre @ z # post) = Inl e"
  by (induction pre) (auto split: sum.splits)

lemma forEachE_fails:
  "x \<in> set xs \<Longrightarrow> (\<And>t. \<exists>e. f x t = Inl e) \<Longrightarrow> \<exists>e. forEachE f xs s = Inl e"
proof (induction xs arbitrary: s)
  case Nil
  then show ?case by simp
next
  case (Cons y xs)
  show ?case
  proof (cases "f y s")
    case (Inl e)
    then show ?thesis by simp
  next
    case (Inr t)
    show ?thesis
    proof (cases "x = y")
      case True
      with Cons.prems(2) [of s] Inr show ?thesis by simp
    next
      case False
      with Cons.prems(1) have "x \<in> set xs" by simp
      from Cons.IH [OF this Cons.prems(2)] Inr show ?thesis by simp
    qed
  qed
qed

lemma toString_defined:
  "\<not> isNull x \<Longrightarrow> \<not> isUndefined x \<Longrightarrow> \<exists>s. toString c x = Inr s"
  by (cases x) simp_all

lemma convertKnownValueToString_scalar:
  "isBoolean v \<or> isNumber v \<or> isString v \<Longrightarrow> \<exists>s. convertKnownValueToString c v = Inr (Str s)"
  by (cases v) simp_all

lemma scalar_not_null:
  "isBoolean v \<or> isNumber v \<or> isString v \<Longrightarrow> \<not> isNull v \<and> \<not> isUndefined v \<and> isDefined v"
  by (cases v) (simp_all add: isDefined_def)

lemma assign_succeeds: "loc \<noteq> [] \<Longrightarrow> \<exists>json'. assign loc new json = Inr json'"
  by (cases "set_at loc new (Obj json)") (simp_all add: assign_def)

lemma encode_strings_succeed:
  assumes "\<forall>v \<in> fst ` set before. isBoolean v \<or> isNumber v \<or> isString v"
    and "\<forall>l \<in> snd ` set before. l \<noteq> []"
  shows "\<exists>json'. convertKnownResultsToJson c TStringArray p before json = Inr json'"
  using assms
proof (induction before arbitrary: json)
  case Nil
  show ?case by (simp add: convertKnownResultsToJson_def)
next
  case (Cons r before)
  obtain v l where r: "r = (v, l)" by (cases r)
  from Cons.prems r have v: "isBoolean v \<or> isNumber v \<or> isString v" and l: "l \<noteq> []" by auto
  from convertKnownValueToString_scalar [OF v] obtain s
    where s: "convertKnownValueToString c v = Inr (Str s)" by blast
  from assign_succeeds [OF l] obtain t where t: "assign l (Str s) json = Inr t" by blast
  from Cons.IH [of t] Cons.prems
  obtain json' where "convertKnownResultsToJson c TStringArray p before t = Inr json'" by auto
  then show ?case using scalar_not_null [OF v] s t
    by (simp add: convertKnownResultsToJson_def r del: convertKnownValueToString.simps)
qed

lemma decode_strings_succeed:
  assumes "\<forall>v \<in> fst ` set before. isBoolean v \<or> isNumber v \<or> isString v"
    and "\<forall>l \<in> snd ` set before. l \<noteq> []"
  shows "\<exists>data'. convertKnownResultsFromJson c before data = Inr data'"
  using assms
proof (induction before arbitrary: data)
  case Nil
  show ?case by (simp add: convertKnownResultsFromJson_def)
next
  case (Cons r before)
  obtain v l where r: "r = (v, l)" by (cases r)
  from Cons.prems r have v: "isBoolean v \<or> isNumber v \<or> isString v" and l: "l \<noteq> []" by auto
  from convertKnownValueToString_scalar [OF v] obtain s
    where s: "convertKnownValueToString c v = Inr (Str s)" by blast
  from assign_succeeds [OF l] obtain t where t: "assign l (Str s) data = Inr t" by blast
  from Cons.IH [of t] Cons.prems
  obtain data' where "convertKnownResultsFromJson c before t = Inr data'" by auto
  then show ?case using scalar_not_null [OF v] s t
    by (simp add: convertKnownResultsFromJson_def r del: convertKnownValueToString.simps)
qed

lemma encode_results_append:
  "convertKnownResultsToJson c TStringArray p (xs @ ys) json =
     (case convertKnownResultsToJson c TStringArray p xs json of
        Inl e \<Rightarrow> Inl e
      | Inr json' \<Rightarrow> convertKnownResultsToJson c TStringArray p ys json')"
  unfolding convertKnownResultsToJson_def by (simp add: forEachE_append split: sum.splits)

lemma decode_results_append:
  "convertKnownResultsFromJson c (xs @ ys) data =
     (case convertKnownResultsFromJson c xs data of
        Inl e \<Rightarrow> Inl e
      | Inr data' \<Rightarrow> convertKnownResultsFromJson c ys data')"
  unfolding convertKnownResultsFromJson_def by (simp add: forEachE_append split: sum.splits)

lemma encode_field_many:
  "1 < length (JSONPath (pathOf fieldName fieldDef) json) \<Longrightarrow> type fieldDef = TStringArray \<Longrightarrow>
     convertToRedisJsonKnown c [(fieldName, fieldDef)] json
       = convertKnownResultsToJson c TStringArray (pathOf fieldName fieldDef)
           (JSONPath (pathOf fieldName fieldDef) json) json"
  by (simp add: convertToRedisJsonKnown_def Let_def split: sum.splits)

lemma decode_field_many:
  "1 < length (JSONPath (pathOf fieldName fieldDef) json) \<Longrightarrow> type fieldDef = TStringArray \<Longrightarrow>
     convertFromRedisJsonKnown c [(fieldName, fieldDef)] json
       = convertKnownResultsFromJson c (JSONPath (pathOf fieldName fieldDef) json) json"
  by (simp add: convertFromRedisJsonKnown_def Let_def split: sum.splits)

lemma encode_field_one:
  "JSONPath (pathOf fieldName fieldDef) json = [(v, loc)] \<Longrightarrow>
     convertToRedisJsonKnown c [(fieldName, fieldDef)] json
       = convertKnownResultToJson c (type fieldDef) (v, loc) json"
  by (simp add: convertToRedisJsonKnown_def Let_def split: sum.splits)

lemma decode_field_one:
  "JSONPath (pathOf fieldName fieldDef) json = [(v, loc)] \<Longrightarrow>
     convertFromRedisJsonKnown c [(fieldName, fieldDef)] json
       = (case convertKnownValueFromJson c fieldDef v of
            Inl e \<Rightarrow> Inl e
          | Inr new \<Rightarrow> assign loc new json)"
  by (simp add: convertFromRedisJsonKnown_def Let_def del: convertKnownValueFromJson.simps
      split: sum.splits)

lemma toRedisJson_fails:
  "convertToRedisJsonKnown c schema json = Inl e \<Longrightarrow> toRedisJson c schema json = Inl e"
  by (simp add: toRedisJson_def clone_def)

lemma encode_array_with_null:
  assumes "Null \<in> set xs"
  shows "\<exists>e. convertKnownValueToJson c TStringArray (Arr xs) = Inl e"
proof -
  have "\<exists>e. convertArrayToStringArray c xs = Inl e"
    unfolding convertArrayToStringArray_def
  proof (rule mapE_fails)
    show "Null \<in> set xs" by fact
    show "(if isNull Null then Inl (ContainsNull (Arr xs))
           else if isUndefined Null then Inl (ContainsUndefined (Arr xs))
           else map_sum id Str (toString c Null)) = Inl (ContainsNull (Arr xs))"
      by simp
  qed
  then obtain e where "convertArrayToStringArray c xs = Inl e" ..
  then show ?thesis by simp
qed

lemma decode_array_with_null:
  assumes "Null \<in> set xs" and "type fieldDef = TStringArray"
  shows "\<exists>e. convertKnownValueFromJson c fieldDef (Arr xs) = Inl e"
proof -
  have "\<exists>e. convertFromJsonArrayToStringArray c xs = Inl e"
    unfolding convertFromJsonArrayToStringArray_def
  proof (rule mapE_fails)
    show "Null \<in> set xs" by fact
    show "(if isNull Null then Inl (ContainsNullFromRedisJson (Arr xs))
           else map_sum id Str (toString c Null)) = Inl (ContainsNullFromRedisJson (Arr xs))"
      by simp
  qed
  then obtain e where "convertFromJsonArrayToStringArray c xs = Inl e" ..
  then show ?thesis using assms(2) by simp
qed

lemma toString_Str: "\<not> isNull x \<Longrightarrow> \<not> isUndefined x \<Longrightarrow> \<exists>y. map_sum id Str (toString c x) = Inr y"
  by (cases x) simp_all

lemma encode_array_first_null:
  assumes "\<forall>x \<in> set pre. \<not> isNull x \<and> \<not> isUndefined x"
  shows "convertKnownValueToJson c TStringArray (Arr (pre @ Null # post))
           = Inl (ContainsNull (Arr (pre @ Null # post)))"
proof -
  have "convertArrayToStringArray c (pre @ Null # post) = Inl (ContainsNull (Arr (pre @ Null # post)))"
    unfolding convertArrayToStringArray_def
  proof (rule mapE_first_failure)
    show "\<forall>x\<in>set pre. \<exists>y. (if isNull x then Inl (ContainsNull (Arr (pre @ Null # post)))
           else if isUndefined x then Inl (ContainsUndefined (Arr (pre @ Null # post)))
           else map_sum id Str (toString c x)) = Inr y"
    proof
      fix x assume "x \<in> set pre"
      with assms have "\<not> isNull x" "\<not> isUndefined x" by simp_all
      then show "\<exists>y. (if isNull x then Inl (ContainsNull (Arr (pre @ Null # post)))
           else if isUndefined x then Inl (ContainsUndefined (Arr (pre @ Null # post)))
           else map_sum id Str (toString c x)) = Inr y"
        using toString_Str [of x c] by simp
    qed
  qed simp
  then show ?thesis by simp
qed

lemma decode_array_first_null:
  assumes "\<forall>x \<in> set pre. \<not> isNull x \<and> \<not> isUndefined x" and "type fieldDef = TStringArray"
  shows "convertKnownValueFromJson c fieldDef (Arr (pre @ Null # post))
           = Inl (ContainsNullFromRedisJson (Arr (pre @ Null # post)))"
proof -
  have "convertFromJsonArrayToStringArray c (pre @ Null # post)
      = Inl (ContainsNullFromRedisJson (Arr (pre @ Null # post)))"
    unfolding convertFromJsonArrayToStringArray_def
  proof (rule mapE_first_failure)
    show "\<forall>x\<in>set pre. \<exists>y. (if isNull x then Inl (ContainsNullFromRedisJson (Arr (pre @ Null # post)))
           else map_sum id Str (toString c x)) = Inr y"
    proof
      fix x assume "x \<in> set pre"
      with assms have "\<not> isNull x" "\<not> isUndefined x" by simp_all
      then show "\<exists>y. (if isNull x then Inl (ContainsNullFromRedisJson (Arr (pre @ Null # post)))
           else map_sum id Str (toString c x)) = Inr y"
        using toString_Str [of x c] by simp
    qed
  qed simp
  then show ?thesis using assms(2) by simp
qed

lemma encode_results_with_null:
  assumes "(Null, l) \<in> set results"
  shows "\<exists>e. convertKnownResultsToJson c TStringArray p results json = Inl e"
  unfolding convertKnownResultsToJson_def
  by (simp, rule forEachE_fails [OF assms]) simp

lemma decode_results_with_null:
  assumes "(Null, l) \<in> set results"
  shows "\<exists>e. convertKnownResultsFromJson c results json = Inl e"
  unfolding convertKnownResultsFromJson_def
  by (rule forEachE_fails [OF assms]) simp

text \<open>
  C7, as the code has it. For a string-array field, in the encoder and in the
  decoder: when the only match of the path is an array with a null element, or
  the path has several matches and one of them is null, the conversion fails
  and there is no document. The error is the one about null, with the
  container (the array; the parent of the null match, as the conversions before
  it left it), when nothing before the first null raises another error: in the
  array no element before it is null or undefined, among the matches every
  match before it is a boolean, a number or a string.
\<close>

theorem string_array_null:
  assumes "type fieldDef = TStringArray"
  shows
   "(JSONPath (pathOf fieldName fieldDef) json = [(Arr xs, loc)] \<and> Null \<in> set xs \<longrightarrow>
       (\<exists>e. toRedisJson c [(fieldName, fieldDef)] json = Inl e)
       \<and> (\<exists>e. fromRedisJson c [(fieldName, fieldDef)] json = Inl e))
    \<and> (JSONPath (pathOf fieldName fieldDef) json = [(Arr (pre @ Null # post), loc)]
        \<and> (\<forall>x \<in> set pre. \<not> isNull x \<and> \<not> isUndefined x) \<longrightarrow>
       toRedisJson c [(fieldName, fieldDef)] json = Inl (ContainsNull (Arr (pre @ Null # post)))
       \<and> fromRedisJson c [(fieldName, fieldDef)] json
           = Inl (ContainsNullFromRedisJson (Arr (pre @ Null # post))))
    \<and> (1 < length (JSONPath (pathOf fieldName fieldDef) json)
        \<and> Null \<in> fst ` set (JSONPath (pathOf fieldName fieldDef) json) \<longrightarrow>
       (\<exists>e. toRedisJson c [(fieldName, fieldDef)] json = Inl e)
       \<and> (\<exists>e. fromRedisJson c [(fieldName, fieldDef)] json = Inl e))
    \<and> (JSONPath (pathOf fieldName fieldDef) json = before @ (Null, nloc) # after
        \<and> before @ after \<noteq> []
        \<and> (\<forall>v \<in> fst ` set before. isBoolean v \<or> isNumber v \<or> isString v) \<longrightarrow>
       (\<exists>json'. convertKnownResultsToJson c TStringArray (pathOf fieldName fieldDef) before json
                   = Inr json'
           \<and> toRedisJson c [(fieldName, fieldDef)] json = Inl (ContainsNull (parent nloc json')))
       \<and> (\<exists>data'. convertKnownResultsFromJson c before json = Inr data'
           \<and> fromRedisJson c [(fieldName, fieldDef)] json
               = Inl (ContainsNullFromRedisJson (parent nloc data'))))"
proof (intro conjI impI)
  assume a: "JSONPath (pathOf fieldName fieldDef) json = [(Arr xs, loc)] \<and> Null \<in> set xs"
  from encode_array_with_null [of xs c] a obtain e
    where e: "convertKnownValueToJson c TStringArray (Arr xs) = Inl e" by blast
  have "convertToRedisJsonKnown c [(fieldName, fieldDef)] json = Inl e"
    using a e assms
    by (simp add: encode_field_one convertKnownResultToJson_def isDefined_def
        del: convertKnownValueToJson.simps)
  then show "\<exists>e. toRedisJson c [(fieldName, fieldDef)] json = Inl e"
    using toRedisJson_fails by blast
  from decode_array_with_null [of xs fieldDef c] a assms obtain e'
    where e': "convertKnownValueFromJson c fieldDef (Arr xs) = Inl e'" by blast
  show "\<exists>e. fromRedisJson c [(fieldName, fieldDef)] json = Inl e"
    using a e'
    by (simp add: fromRedisJson_def clone_def decode_field_one
        del: convertKnownValueFromJson.simps)
next
  assume a: "JSONPath (pathOf fieldName fieldDef) json = [(Arr (pre @ Null # post), loc)]
        \<and> (\<forall>x \<in> set pre. \<not> isNull x \<and> \<not> isUndefined x)"
  then have pre: "\<forall>x \<in> set pre. \<not> isNull x \<and> \<not> isUndefined x" by simp
  have "convertToRedisJsonKnown c [(fieldName, fieldDef)] json
      = Inl (ContainsNull (Arr (pre @ Null # post)))"
    using a assms encode_array_first_null [OF pre, of c post]
    by (simp add: encode_field_one convertKnownResultToJson_def isDefined_def
        del: convertKnownValueToJson.simps)
  then show "toRedisJson c [(fieldName, fieldDef)] json
      = Inl (ContainsNull (Arr (pre @ Null # post)))"
    by (rule toRedisJson_fails)
  show "fromRedisJson c [(fieldName, fieldDef)] json
      = Inl (ContainsNullFromRedisJson (Arr (pre @ Null # post)))"
    using a decode_array_first_null [OF pre assms, of c post]
    by (simp add: fromRedisJson_def clone_def decode_field_one
        del: convertKnownValueFromJson.simps)
next
  assume a: "1 < length (JSONPath (pathOf fieldName fieldDef) json)
        \<and> Null \<in> fst ` set (JSONPath (pathOf fieldName fieldDef) json)"
  then obtain l where l: "(Null, l) \<in> set (JSONPath (pathOf fieldName fieldDef) json)"
    by auto
  from encode_results_with_null [OF l, of c "pathOf fieldName fieldDef" json] obtain e
    where "convertKnownResultsToJson c TStringArray (pathOf fieldName fieldDef)
        (JSONPath (pathOf fieldName fieldDef) json) json = Inl e" by blast
  then have "convertToRedisJsonKnown c [(fieldName, fieldDef)] json = Inl e"
    using a assms by (simp add: encode_field_many)
  then show "\<exists>e. toRedisJson c [(fieldName, fieldDef)] json = Inl e"
    using toRedisJson_fails by blast
  from decode_results_with_null [OF l, of c json] obtain e'
    where "convertKnownResultsFromJson c (JSONPath (pathOf fieldName fieldDef) json) json = Inl e'"
    by blast
  then show "\<exists>e. fromRedisJson c [(fieldName, fieldDef)] json = Inl e"
    using a assms by (simp add: fromRedisJson_def clone_def decode_field_many)
next
  assume a: "JSONPath (pathOf fieldName fieldDef) json = before @ (Null, nloc) # after
        \<and> before @ after \<noteq> []
        \<and> (\<forall>v \<in> fst ` set before. isBoolean v \<or> isNumber v \<or> isString v)"
  then have results: "JSONPath (pathOf fieldName fieldDef) json = before @ (Null, nloc) # after"
    and scalars: "\<forall>v \<in> fst ` set before. isBoolean v \<or> isNumber v \<or> isString v"
    by simp_all
  from a have many: "1 < length (JSONPath (pathOf fieldName fieldDef) json)"
    by (cases before; cases after) simp_all
  have locs: "\<forall>l \<in> snd ` set before. l \<noteq> []"
  proof
    fix l assume "l \<in> snd ` set before"
    then obtain v where "(v, l) \<in> set before" by auto
    then have "(v, l) \<in> set (JSONPath (pathOf fieldName fieldDef) json)"
      using results by simp
    from many_matches_locations [OF many this] show "l \<noteq> []" .
  qed
  from encode_strings_succeed [OF scalars locs, of c "pathOf fieldName fieldDef" json]
  obtain json' where json':
    "convertKnownResultsToJson c TStringArray (pathOf fieldName fieldDef) before json = Inr json'"
    by blast
  have "convertKnownResultsToJson c TStringArray (pathOf fieldName fieldDef)
      (before @ (Null, nloc) # after) json = Inl (ContainsNull (parent nloc json'))"
    by (simp add: encode_results_append json') (simp add: convertKnownResultsToJson_def)
  then have "convertToRedisJsonKnown c [(fieldName, fieldDef)] json
      = Inl (ContainsNull (parent nloc json'))"
    using many assms results by (simp add: encode_field_many)
  then have "toRedisJson c [(fieldName, fieldDef)] json = Inl (ContainsNull (parent nloc json'))"
    by (rule toRedisJson_fails)
  with json' show "\<exists>json'. convertKnownResultsToJson c TStringArray (pathOf fieldName fieldDef)
        before json = Inr json'
      \<and> toRedisJson c [(fieldName, fieldDef)] json = Inl (ContainsNull (parent nloc json'))"
    by blast
  from decode_strings_succeed [OF scalars locs, of c json]
  obtain data' where data': "convertKnownResultsFromJson c before json = Inr data'"
    by blast
  have "convertKnownResultsFromJson c (before @ (Null, nloc) # after) json
      = Inl (ContainsNullFromRedisJson (parent nloc data'))"
    by (simp add: decode_results_append data') (simp add: convertKnownResultsFromJson_def)
  then have "fromRedisJson c [(fieldName, fieldDef)] json
      = Inl (ContainsNullFromRedisJson (parent nloc data'))"
    using many assms results by (simp add: fromRedisJson_def clone_def decode_field_many)
  with data' show "\<exists>data'. convertKnownResultsFromJson c before json = Inr data'
      \<and> fromRedisJson c [(fieldName, fieldDef)] json
          = Inl (ContainsNullFromRedisJson (parent nloc data'))"
    by blast
qed

theorem string_array_null_witness:
  "type \<lparr>type = TStringArray, path = None\<rparr> = TStringArray
   \<and> JSONPath (pathOf ''tags'' \<lparr>type = TStringArray, path = None\<rparr>) oneAndNull
       = [(Arr ([Num 1] @ Null # []), [Key ''tags''])]
   \<and> toRedisJson sampleCommon tagsArrayField oneAndNull = Inl (ContainsNull (Arr [Num 1, Null]))
   \<and> fromRedisJson sampleCommon tagsArrayField oneAndNull
       = Inl (ContainsNullFromRedisJson (Arr [Num 1, Null]))
   \<and> JSONPath (pathOf ''tags'' \<lparr>type = TStringArray, path = Some [Child ''tags'', Wildcard]\<rparr>)
         oneAndNull
       = [(Num 1, [Key ''tags'', Idx 0])] @ (Null, [Key ''tags'', Idx 1]) # []
   \<and> toRedisJson sampleCommon tagsField oneAndNull = Inl (ContainsNull (Arr [Str ''1'', Null]))
   \<and> fromRedisJson sampleCommon tagsField oneAndNull
       = Inl (ContainsNullFromRedisJson (Arr [Str ''1'', Null]))"
proof -
  have one: "JSONPath (pathOf ''tags'' \<lparr>type = TStringArray, path = None\<rparr>) oneAndNull
       = [(Arr ([Num 1] @ Null # []), [Key ''tags''])]"
    by (simp add: JSONPath_def pathOf_def oneAndNull_def)
  have many: "JSONPath (pathOf ''tags'' \<lparr>type = TStringArray, path = Some [Child ''tags'', Wildcard]\<rparr>)
         oneAndNull
       = [(Num 1, [Key ''tags'', Idx 0])] @ (Null, [Key ''tags'', Idx 1]) # []"
    by (simp add: JSONPath_def pathOf_def oneAndNull_def)
  have "convertKnownResultsToJson sampleCommon TStringArray [Child ''tags'', Wildcard]
      [(Num 1, [Key ''tags'', Idx 0])] oneAndNull = Inr [(''tags'', Arr [Str ''1'', Null])]"
    by (simp add: encode_defs sample_defs oneAndNull_def)
  moreover have "convertKnownResultsFromJson sampleCommon
      [(Num 1, [Key ''tags'', Idx 0])] oneAndNull = Inr [(''tags'', Arr [Str ''1'', Null])]"
    by (simp add: decode_defs sample_defs oneAndNull_def)
  moreover note one many
    string_array_null [where fieldDef = "\<lparr>type = TStringArray, path = None\<rparr>"
      and fieldName = "''tags''" and json = oneAndNull and c = sampleCommon
      and xs = "[Num 1, Null]" and loc = "[Key ''tags'']" and pre = "[Num 1]" and post = "[]"]
    string_array_null [where
      fieldDef = "\<lparr>type = TStringArray, path = Some [Child ''tags'', Wildcard]\<rparr>"
      and fieldName = "''tags''" and json = oneAndNull and c = sampleCommon
      and before = "[(Num 1, [Key ''tags'', Idx 0])]" and nloc = "[Key ''tags'', Idx 1]"
      and after = "[]"]
  ultimately show ?thesis
    by (simp add: tagsArrayField_def tagsField_def pathOf_def parent_def)
qed

text \<open>A single match that is null passes in both directions, and a match before
  the null that is no string, number or boolean raises its own error.\<close>

theorem string_array_null_counterexample:
  "JSONPath (pathOf ''tags'' \<lparr>type = TStringArray, path = Some [Child ''tags'', Wildcard]\<rparr>)
       [(''tags'', Arr [Null :: (rat, int) jsval])]
     = [(Null, [Key ''tags'', Idx 0])]
   \<and> toRedisJson sampleCommon tagsField [(''tags'', Arr [Null])] = Inr [(''tags'', Arr [Null])]
   \<and> fromRedisJson sampleCommon tagsField [(''tags'', Arr [Null])] = Inr [(''tags'', Arr [Null])]
   \<and> toRedisJson sampleCommon tagsField [(''tags'', Arr [Obj [], Null])]
       = Inl (ExpectedButReceived TString (Obj []))"
  by (simp add: encode_defs fromRedisJson_def convertFromRedisJsonKnown_def
      convertKnownResultsFromJson_def tagsField_def)

subsection \<open>The round trip\<close>




















section \<open>The store: what a call changes\<close>














subsection \<open>The copy\<close>




subsection \<open>Matches in the store\<close>






subsection \<open>Conversions in the store\<close>








subsection \<open>The passes in the store\<close>










text \<open>The store shows a write through every reference: the conversion of the
  known fields on the caller's own object, without the copy, changes it.\<close>

lemma write_without_copy:
  "take (length sampleStore) (fst (convertToRedisJsonKnownH sampleCommonH storeFields 2 sampleStore))
     = [HDate 5000, HArray [HNum 1, HBool True],
        HObject [(''when'', HNum 5), (''gone'', HUndefined), (''tags'', HRef 3)]]"
  by (simp add: deref_def storeFields_def sampleStore_def
      convertToRedisJsonKnownH_def JSONPathH_def pathOf_def convertKnownResultToJsonH_def
      convertKnownValueToJsonH_def convertArrayToStringArrayH_def isDefinedH_def
      sampleCommonH_def decimalToString_def digitChar_def Let_def)

end
